(* ===== verification/C_Prelude.thy ===== *)
theory C_Prelude
  imports Main "HOL-Library.Word" "HOL-Library.State_Monad"
begin

text \<open>
  What every component of the development shares: the C integer types, the
  standard error numbers, little-endian views of byte buffers, block copies
  inside a fixed buffer, and the weakest-precondition calculus for the state
  monad in which the C functions are written.
\<close>

section \<open>C integer types and error numbers\<close>

type_synonym u8 = "8 word"
type_synonym u16 = "16 word"
type_synonym u32 = "32 word"
type_synonym u64 = "64 word"
type_synonym bytes = "8 word list"

text \<open>The error numbers of the standard \<^verbatim>\<open><errno.h>\<close> the sources return.\<close>

definition ENOENT :: int where "ENOENT = 2"
definition EAGAIN :: int where "EAGAIN = 11"
definition EINVAL :: int where "EINVAL = 22"
definition ENOSPC :: int where "ENOSPC = 28"

lemmas errno_defs = ENOENT_def EAGAIN_def EINVAL_def ENOSPC_def

lemma unat_ucast_up:
  assumes "LENGTH('a) \<le> LENGTH('b)"
  shows "unat (ucast (w :: 'a::len word) :: 'b::len word) = unat w"
proof -
  have "unat w < 2 ^ LENGTH('b)"
    using unsigned_less [of w] assms
    by (meson less_le_trans one_le_numeral power_increasing)
  then show ?thesis by (simp add: unsigned_ucast_eq take_bit_nat_eq_self)
qed

lemma unat_ucast_32_64 [simp]: "unat (ucast (w :: u32) :: u64) = unat w"
  by (rule unat_ucast_up) simp

lemma uint_le_unat: "\<not> (uint w < 0 \<or> uint w > 10) \<Longrightarrow> unat w \<le> 10"
  by (simp add: not_less nat_le_iff del: nat_uint_eq flip: nat_uint_eq)

section \<open>Little-endian byte buffers\<close>

lemma unat_bound: "unat (w :: 'a::len word) < 2 ^ LENGTH('a)"
  by (rule unsigned_less)

text \<open>
  \<open>memcpy\<close> between an integer object and a byte buffer on the little-endian
  Cortex-M33: \<open>le_nat\<close> reads a run of bytes, \<open>le_bytes n\<close> writes \<open>n\<close> of them.
\<close>

fun le_nat :: "bytes \<Rightarrow> nat" where
  "le_nat [] = 0"
| "le_nat (b # bs) = unat b + 256 * le_nat bs"

fun le_bytes :: "nat \<Rightarrow> nat \<Rightarrow> bytes" where
  "le_bytes 0 x = []"
| "le_bytes (Suc n) x = of_nat x # le_bytes n (x div 256)"

definition le_word :: "bytes \<Rightarrow> 'a::len word" where
  "le_word bs = of_nat (le_nat bs)"

lemma length_le_bytes [simp]: "length (le_bytes n x) = n"
  by (induction n arbitrary: x) auto

lemma unat_u8_of_nat: "unat (of_nat x :: u8) = x mod 256"
  by (simp add: unat_of_nat)

lemma le_nat_le_bytes: "le_nat (le_bytes n x) = x mod 256 ^ n"
proof (induction n arbitrary: x)
  case 0
  then show ?case by simp
next
  case (Suc n)
  have "x mod (256 * 256 ^ n) = 256 * (x div 256 mod 256 ^ n) + x mod 256"
    by (rule mod_mult2_eq)
  then show ?case by (simp add: Suc.IH unat_u8_of_nat)
qed

lemma le_nat_bound: "le_nat bs < 256 ^ length bs"
proof (induction bs)
  case Nil
  then show ?case by simp
next
  case (Cons b bs)
  have "unat b < 256" using unat_bound [of b] by simp
  with Cons.IH show ?case by simp
qed

lemma le_word_u16: "length bs = 2 \<Longrightarrow> unat (le_word bs :: u16) = le_nat bs"
  using le_nat_bound [of bs] by (simp add: le_word_def unat_of_nat)

lemma le_word_u32: "length bs = 4 \<Longrightarrow> unat (le_word bs :: u32) = le_nat bs"
  using le_nat_bound [of bs] by (simp add: le_word_def unat_of_nat)

lemma le_word_u64: "length bs = 8 \<Longrightarrow> unat (le_word bs :: u64) = le_nat bs"
  using le_nat_bound [of bs] by (simp add: le_word_def unat_of_nat)

lemma le_word_u16_bytes [simp]: "le_word (le_bytes 2 (unat w)) = (w :: u16)"
proof (rule word_unat_eq_iff [THEN iffD2])
  show "unat (le_word (le_bytes 2 (unat w)) :: u16) = unat w"
    using unat_bound [of w] by (simp add: le_word_u16 le_nat_le_bytes)
qed

lemma le_word_u32_bytes [simp]: "le_word (le_bytes 4 (unat w)) = (w :: u32)"
proof (rule word_unat_eq_iff [THEN iffD2])
  show "unat (le_word (le_bytes 4 (unat w)) :: u32) = unat w"
    using unat_bound [of w] by (simp add: le_word_u32 le_nat_le_bytes)
qed

lemma le_word_u64_bytes [simp]: "le_word (le_bytes 8 (unat w)) = (w :: u64)"
proof (rule word_unat_eq_iff [THEN iffD2])
  show "unat (le_word (le_bytes 8 (unat w)) :: u64) = unat w"
    using unat_bound [of w] by (simp add: le_word_u64 le_nat_le_bytes)
qed

section \<open>Copies into a fixed buffer\<close>

text \<open>
  \<open>blit buf off src\<close> is the buffer after \<open>memcpy(&buf[off], src, length src)\<close>;
  it is in bounds when \<open>off + length src \<le> length buf\<close>.
\<close>

definition blit :: "'a list \<Rightarrow> nat \<Rightarrow> 'a list \<Rightarrow> 'a list" where
  "blit buf off src = take off buf @ src @ drop (off + length src) buf"

lemma length_blit [simp]:
  "off + length src \<le> length buf \<Longrightarrow> length (blit buf off src) = length buf"
  by (simp add: blit_def)

lemma take_blit [simp]: "length src = n \<Longrightarrow> take n (blit buf 0 src) = src"
  by (simp add: blit_def)

lemma blit_slice:
  "off \<le> length buf \<Longrightarrow> take (length src) (drop off (blit buf off src)) = src"
  by (simp add: blit_def)

section \<open>The state monad and its weakest preconditions\<close>

text \<open>
  A C function over the program's globals is a value of \<open>('s, 'a) state\<close>.
  \<open>wp m Q s\<close> says that \<open>m\<close>, started in \<open>s\<close>, ends with a result and a state that
  satisfy \<open>Q\<close>; the rules below evaluate it along the monadic structure.
\<close>

abbreviation ret :: "'a \<Rightarrow> ('s, 'a) state" where
  "ret \<equiv> State_Monad.return"

abbreviation gets :: "('s \<Rightarrow> 'a) \<Rightarrow> ('s, 'a) state" where
  "gets f \<equiv> State (\<lambda>s. (f s, s))"

abbreviation modify :: "('s \<Rightarrow> 's) \<Rightarrow> ('s, unit) state" where
  "modify f \<equiv> State (\<lambda>s. ((), f s))"

abbreviation exec :: "('s, 'a) state \<Rightarrow> 's \<Rightarrow> 's" where
  "exec m s \<equiv> snd (run_state m s)"

abbreviation result :: "('s, 'a) state \<Rightarrow> 's \<Rightarrow> 'a" where
  "result m s \<equiv> fst (run_state m s)"

definition wp :: "('s, 'a) state \<Rightarrow> ('a \<Rightarrow> 's \<Rightarrow> bool) \<Rightarrow> 's \<Rightarrow> bool" where
  "wp m Q s = (case run_state m s of (r, s') \<Rightarrow> Q r s')"

named_theorems wp_simps \<open>equations that evaluate weakest preconditions\<close>

lemma wp_return [wp_simps]: "wp (ret x) Q s = Q x s"
  by (simp add: wp_def)

lemma wp_bind [wp_simps]:
  "wp (State_Monad.bind m f) Q s = wp m (\<lambda>r s'. wp (f r) Q s') s"
  by (simp add: wp_def split: prod.splits)

lemma wp_State [wp_simps]: "wp (State f) Q s = (case f s of (r, s') \<Rightarrow> Q r s')"
  by (simp add: wp_def)

lemma wp_if [wp_simps]: "wp (if b then m else n) Q s = (if b then wp m Q s else wp n Q s)"
  by simp

lemma wp_run: "wp m Q s \<longleftrightarrow> Q (result m s) (exec m s)"
  by (simp add: wp_def split: prod.splits)

lemma wp_mono: "wp m Q s \<Longrightarrow> (\<And>r s'. Q r s' \<Longrightarrow> R r s') \<Longrightarrow> wp m R s"
  by (simp add: wp_run)

lemma wp_conj: "wp m (\<lambda>r s'. Q r s' \<and> R r s') s \<longleftrightarrow> wp m Q s \<and> wp m R s"
  by (simp add: wp_run)

text \<open>An invariant of the globals kept by an operation.\<close>

definition keeps :: "('s \<Rightarrow> bool) \<Rightarrow> ('s, 'a) state \<Rightarrow> bool" where
  "keeps I m \<longleftrightarrow> (\<forall>s. I s \<longrightarrow> I (exec m s))"

named_theorems keeps_intros \<open>rules that prove \<open>keeps\<close> along the monadic structure\<close>

lemma keepsI: "(\<And>s. I s \<Longrightarrow> wp m (\<lambda>_. I) s) \<Longrightarrow> keeps I m"
  by (simp add: keeps_def wp_run)

lemma keepsD: "keeps I m \<Longrightarrow> I s \<Longrightarrow> I (exec m s)"
  by (simp add: keeps_def)

lemma keeps_return [keeps_intros]: "keeps I (ret x)"
  by (simp add: keeps_def)

lemma keeps_gets [keeps_intros]: "keeps I (gets f)"
  by (simp add: keeps_def)

lemma keeps_modify: "(\<And>s. I s \<Longrightarrow> I (f s)) \<Longrightarrow> keeps I (modify f)"
  by (simp add: keeps_def)

lemma keeps_bind [keeps_intros]:
  "keeps I m \<Longrightarrow> (\<And>r. keeps I (f r)) \<Longrightarrow> keeps I (State_Monad.bind m f)"
  by (simp add: keeps_def split: prod.splits) (metis snd_conv)

lemma keeps_if [keeps_intros]:
  "(b \<Longrightarrow> keeps I m) \<Longrightarrow> (\<not> b \<Longrightarrow> keeps I n) \<Longrightarrow> keeps I (if b then m else n)"
  by simp

lemma keeps_case_option [keeps_intros]:
  "keeps I m \<Longrightarrow> (\<And>x. keeps I (f x)) \<Longrightarrow> keeps I (case o' of None \<Rightarrow> m | Some x \<Rightarrow> f x)"
  by (cases o') auto

lemma keeps_case_prod [keeps_intros]:
  "(\<And>x y. keeps I (f x y)) \<Longrightarrow> keeps I (case p of (x, y) \<Rightarrow> f x y)"
  by (cases p) auto

lemma keeps_case_sum [keeps_intros]:
  "(\<And>x. keeps I (f x)) \<Longrightarrow> (\<And>y. keeps I (g y)) \<Longrightarrow>
   keeps I (case v of Inl x \<Rightarrow> f x | Inr y \<Rightarrow> g y)"
  by (cases v) auto

end
