(* ===== verification/Sat_Ipc.thy ===== *)
theory Sat_Ipc
  imports C_Prelude
begin

text \<open>
  The messages the two cores exchange, \<^verbatim>\<open>app/common/sat_ipc.h\<close>: the command
  enumeration, the header every message starts with, and the packet that carries
  a satellite frame. The frame structure belongs to the Hubble SDK, so it is kept
  as its bytes.
\<close>

datatype sat_ipc_command =
    SAT_CMD_SEND
  | SAT_CMD_INIT
  | SAT_CMD_ENABLE
  | SAT_CMD_DISABLE
  | SAT_CMD_OK
  | SAT_CMD_FAIL

record sat_ipc_base =
  cmd :: sat_ipc_command

record sat_ipc_packet =
  base :: sat_ipc_base
  packet :: bytes

text \<open>
  What travels over the endpoint is the object the sender passed with its size:
  a bare header or a full packet. Both begin with the header, so a receiver may
  read the command of either.
\<close>

datatype ipc_msg = Base_msg sat_ipc_base | Packet_msg sat_ipc_packet

fun msg_cmd :: "ipc_msg \<Rightarrow> sat_ipc_command" where
  "msg_cmd (Base_msg b) = cmd b"
| "msg_cmd (Packet_msg p) = cmd (base p)"

definition base_msg :: "sat_ipc_command \<Rightarrow> ipc_msg" where
  "base_msg c = Base_msg \<lparr>cmd = c\<rparr>"

lemma msg_cmd_base_msg [simp]: "msg_cmd (base_msg c) = c"
  by (simp add: base_msg_def)

end
