(* ===== verification/Platform.thy ===== *)
theory Platform
  imports Sat_Ipc
begin

text \<open>
  The boundary between the application core's sources and what they call: Zephyr,
  the Hubble SDK and the drivers. None of that code is in the repository, so the
  model does not define it. A call to it is logged, in order, and its result is
  given by a reply function of the parameter record \<open>env\<close>, an arbitrary function
  of the log up to and including that call. A theorem about all \<open>env\<close> is a theorem about
  every behaviour of the platform; what a theorem needs of the platform is a
  hypothesis about these replies. \<open>env\<close> also carries the build configuration and
  the constants of external headers.
\<close>

section \<open>Kernel objects, external data\<close>

datatype sem = Timer_sem | Init_sem | Key_sem | Bound_sem | Sat_sem
datatype mutex = Radio_mutex | Shell_mutex
datatype ktimer = Sat_timer | Ble_timer | Led_timer
datatype work = Ble_work | Provisioning_work | Button_work
datatype timeout = Forever | Seconds nat

text \<open>\<^verbatim>\<open>struct hubble_sat_pass_info\<close>, \<^verbatim>\<open>struct hubble_sat_device_pos\<close> (the two
  doubles as their 64-bit patterns) and \<^verbatim>\<open>struct sensor_value\<close>: the fields the
  sources use.\<close>

record hubble_sat_pass_info =
  pass_start :: u64
  pass_duration :: u64

record hubble_sat_device_pos =
  lat :: u64
  lon :: u64

record sensor_value =
  val1 :: u32
  val2 :: u32

datatype adv_opt = USE_NRPA | OPT_CONN
datatype adv_interval = SLOW_INT_MIN | SLOW_INT_MAX | FAST_INT_MIN_2 | FAST_INT_MAX_2
datatype ad_type = DATA_UUID16_ALL | DATA_SVC_DATA16 | DATA_NAME_COMPLETE

record bt_data =
  ad_kind :: ad_type
  ad_len :: nat
  ad_bytes :: bytes

datatype reliability = RELIABILITY_NONE | RELIABILITY_NORMAL
datatype fuel_prop = RELATIVE_STATE_OF_CHARGE | VOLTAGE
datatype gpio_flag = OUTPUT_ACTIVE | OUTPUT_INACTIVE | GPIO_INPUT
datatype gpio_pin = Led_pin | Button_pin

text \<open>A line printed on the shell: the format string and its arguments.\<close>

datatype fmt_arg = Arg_s string | Arg_d int

section \<open>External calls\<close>

datatype call =
    Ipc_open | Ipc_register | Ipc_deregister | Ipc_close | Ipc_send ipc_msg
  | Cpunet_enable bool
  | Mark_write u32
  | Sem_give sem | Sem_take sem timeout
  | Mutex_lock mutex | Mutex_unlock mutex
  | Uptime_get | Sleep nat
  | Timer_start ktimer nat nat | Timer_stop ktimer
  | Work_submit work | Work_init work
  | Bt_enable | Bt_disable | Bt_is_ready
  | Adv_start "adv_opt list" adv_interval adv_interval "bt_data list" "bt_data list"
  | Adv_stop
  | Hubble_init u64 bytes | Hubble_time_get | Hubble_time_set u64
  | Satellites_set | Next_pass_get u64 hubble_sat_device_pos
  | Packet_get bytes nat | Packet_send bytes reliability
  | Ble_advertise_get nat
  | Base64_decode nat string
  | Nvs_read nat nat | Nvs_write nat bytes | Nvs_delete nat | Nvs_mount
  | Flash_device_ready | Flash_page_info
  | Sensor_ready | Sensor_fetch | Sensor_get int
  | Fuel_gauge_get "fuel_prop list"
  | Gpio_ready gpio_pin | Gpio_configure gpio_pin gpio_flag | Gpio_toggle gpio_pin
  | Gpio_interrupt gpio_pin | Gpio_add_callback gpio_pin
  | Shell_print string "fmt_arg list"

type_synonym 'a reply = "call list \<Rightarrow> 'a"

section \<open>The platform parameter\<close>

record env =
  \<comment> \<open>Kconfig\<close>
  cfg_pass_prediction :: bool
  cfg_fuel_gauge :: bool
  cfg_blink_led :: bool
  cfg_retransmission :: u8
  cfg_adv_frequency :: nat
  cfg_device_key :: string
  cfg_key_size :: nat
  cfg_device_name :: bytes
  \<comment> \<open>constants of external headers\<close>
  PAYLOAD_MAX :: nat
  CHAN_AMBIENT_TEMP :: int
  CHAN_PRESS :: int
  CHAN_HUMIDITY :: int
  CHAN_GAUGE_VOLTAGE :: int
  CHAN_MAX :: int
  EALREADY :: int
  ATT_ERR_LEN :: int
  WRITE_FLAG_PREPARE :: u8
  HUBBLE_BLE_UUID :: nat
  NVS_PARTITION_SIZE :: nat
  NVS_PARTITION_OFFSET :: nat
  \<comment> \<open>results of external calls\<close>
  o_ipc_open :: "int reply"
  o_ipc_register :: "int reply"
  o_ipc_deregister :: "int reply"
  o_ipc_close :: "int reply"
  o_ipc_send :: "int reply"
  o_sem_take :: "int reply"
  o_uptime :: "int reply"
  o_bt_enable :: "int reply"
  o_bt_is_ready :: "bool reply"
  o_adv_start :: "int reply"
  o_hubble_init :: "int reply"
  o_time_get :: "u64 reply"
  o_satellites_set :: "int reply"
  o_next_pass :: "(int \<times> hubble_sat_pass_info option) reply"
  o_packet_get :: "(int \<times> bytes) reply"
  o_packet_send :: "int reply"
  o_advertise_get :: "(int \<times> bytes) reply"
  o_base64 :: "(int \<times> bytes) reply"
  o_nvs_read :: "(int \<times> bytes) reply"
  o_nvs_write :: "int reply"
  o_nvs_mount :: "int reply"
  o_flash_ready :: "bool reply"
  o_flash_info :: "(int \<times> nat) reply"
  o_sensor_ready :: "bool reply"
  o_sensor_fetch :: "int reply"
  o_sensor_get :: "(int \<times> sensor_value) reply"
  o_fuel_gauge :: "(int \<times> u8 \<times> int) reply"
  o_gpio_ready :: "bool reply"
  o_gpio_configure :: "int reply"
  o_gpio_interrupt :: "int reply"
  o_stray_byte :: "u8 reply"

section \<open>The call log\<close>

text \<open>
  Every component's state extends \<open>world\<close>: the log of external calls, oldest
  first, and a flag that is set when the sources access memory outside an object.
\<close>

record world =
  calls :: "call list"
  fault :: bool

definition emit :: "call \<Rightarrow> ('a world_scheme, call list) state" where
  "emit c = State (\<lambda>s. (calls s @ [c], s\<lparr>calls := calls s @ [c]\<rparr>))"

definition ask :: "'r reply \<Rightarrow> call \<Rightarrow> ('a world_scheme, 'r) state" where
  "ask f c = do { h \<leftarrow> emit c; ret (f h) }"

definition tell :: "call \<Rightarrow> ('a world_scheme, unit) state" where
  "tell c = do { h \<leftarrow> emit c; ret () }"

text \<open>\<open>guard_ok b\<close> is an access that is in bounds when \<open>b\<close> holds.\<close>

definition guard_ok :: "bool \<Rightarrow> ('a world_scheme, unit) state" where
  "guard_ok b = modify (\<lambda>s. s\<lparr>fault := fault s \<or> \<not> b\<rparr>)"

lemma run_emit [simp]:
  "run_state (emit c) s = (calls s @ [c], s\<lparr>calls := calls s @ [c]\<rparr>)"
  by (simp add: emit_def)

lemma run_ask [simp]:
  "run_state (ask f c) s = (f (calls s @ [c]), s\<lparr>calls := calls s @ [c]\<rparr>)"
  by (simp add: ask_def)

lemma run_tell [simp]:
  "run_state (tell c) s = ((), s\<lparr>calls := calls s @ [c]\<rparr>)"
  by (simp add: tell_def)

lemma run_guard_ok [simp]:
  "run_state (guard_ok b) s = ((), s\<lparr>fault := fault s \<or> \<not> b\<rparr>)"
  by (simp add: guard_ok_def)

lemma wp_ask [wp_simps]:
  "wp (ask f c) Q s = Q (f (calls s @ [c])) (s\<lparr>calls := calls s @ [c]\<rparr>)"
  by (simp add: wp_def)

lemma wp_tell [wp_simps]: "wp (tell c) Q s = Q () (s\<lparr>calls := calls s @ [c]\<rparr>)"
  by (simp add: wp_def)

lemma wp_guard_ok [wp_simps]:
  "wp (guard_ok b) Q s = Q () (s\<lparr>fault := fault s \<or> \<not> b\<rparr>)"
  by (simp add: wp_def)

section \<open>The calls an operation makes\<close>

text \<open>
  \<open>emits A m\<close>: the operation \<open>m\<close> only appends to the log, and only calls that
  satisfy \<open>A\<close>.
\<close>

definition emits :: "(call \<Rightarrow> bool) \<Rightarrow> ('a world_scheme, 'b) state \<Rightarrow> bool" where
  "emits A m \<longleftrightarrow> (\<forall>s. \<exists>cs. calls (exec m s) = calls s @ cs \<and> list_all A cs)"

named_theorems emits_intros \<open>rules that prove \<open>emits\<close> along the monadic structure\<close>

lemma emitsI:
  "(\<And>s. \<exists>cs. calls (exec m s) = calls s @ cs \<and> list_all A cs) \<Longrightarrow> emits A m"
  by (simp add: emits_def)

lemma emitsE:
  assumes "emits A m"
  obtains cs where "calls (exec m s) = calls s @ cs" and "list_all A cs"
  using assms by (auto simp: emits_def)

lemma emits_return [emits_intros]: "emits A (ret x)"
  by (simp add: emits_def)

lemma emits_gets [emits_intros]: "emits A (gets f)"
  by (simp add: emits_def)

lemma emits_modify: "(\<And>s. calls (f s) = calls s) \<Longrightarrow> emits A (modify f)"
  by (simp add: emits_def)

lemma emits_guard_ok [emits_intros]: "emits A (guard_ok b)"
  by (simp add: emits_def)

lemma emits_ask [emits_intros]: "A c \<Longrightarrow> emits A (ask f c)"
  by (simp add: emits_def)

lemma emits_tell [emits_intros]: "A c \<Longrightarrow> emits A (tell c)"
  by (simp add: emits_def)

lemma emits_bind [emits_intros]:
  assumes "emits A m" and "\<And>r. emits A (f r)"
  shows "emits A (State_Monad.bind m f)"
proof (rule emitsI)
  fix s
  obtain cs where 1: "calls (exec m s) = calls s @ cs" "list_all A cs"
    using assms(1) by (rule emitsE)
  obtain ds where 2: "calls (exec (f (result m s)) (exec m s)) = calls (exec m s) @ ds"
      "list_all A ds"
    using assms(2) by (rule emitsE)
  have "exec (State_Monad.bind m f) s = exec (f (result m s)) (exec m s)"
    by (simp split: prod.splits)
  with 1 2 show "\<exists>cs. calls (exec (State_Monad.bind m f) s) = calls s @ cs \<and> list_all A cs"
    by (intro exI [of _ "cs @ ds"]) simp
qed

lemma emits_if [emits_intros]:
  "(b \<Longrightarrow> emits A m) \<Longrightarrow> (\<not> b \<Longrightarrow> emits A n) \<Longrightarrow> emits A (if b then m else n)"
  by simp

lemma emits_case_prod [emits_intros]:
  "(\<And>x y. emits A (f x y)) \<Longrightarrow> emits A (case p of (x, y) \<Rightarrow> f x y)"
  by (cases p) auto

lemma emits_case_option [emits_intros]:
  "emits A m \<Longrightarrow> (\<And>x. emits A (f x)) \<Longrightarrow> emits A (case v of None \<Rightarrow> m | Some x \<Rightarrow> f x)"
  by (cases v) auto

lemma emits_mono: "emits A m \<Longrightarrow> (\<And>c. A c \<Longrightarrow> B c) \<Longrightarrow> emits B m"
  by (auto simp: emits_def list_all_iff) blast

lemma emits_conj: "emits A m \<Longrightarrow> emits B m \<Longrightarrow> emits (\<lambda>c. A c \<and> B c) m"
  by (simp add: emits_def list_all_iff) (metis same_append_eq)

section \<open>Operations that change nothing but the log\<close>

definition logs :: "(call \<Rightarrow> bool) \<Rightarrow> ('a world_scheme, 'b) state \<Rightarrow> bool" where
  "logs A m \<longleftrightarrow>
     (\<forall>s. \<exists>r cs. run_state m s = (r, s\<lparr>calls := calls s @ cs\<rparr>) \<and> list_all A cs)"

named_theorems logs_intros \<open>rules that prove \<open>logs\<close> along the monadic structure\<close>

lemma logsE:
  assumes "logs A m"
  obtains r cs where "run_state m s = (r, s\<lparr>calls := calls s @ cs\<rparr>)" and "list_all A cs"
  using assms unfolding logs_def by blast

lemma logs_return [logs_intros]: "logs A (ret x)"
  by (simp add: logs_def exI [of _ "[]"])

lemma logs_gets [logs_intros]: "logs A (gets f)"
  by (simp add: logs_def exI [of _ "[]"])

lemma logs_ask [logs_intros]: "A c \<Longrightarrow> logs A (ask f c)"
  by (simp add: logs_def exI [of _ "[c]"])

lemma logs_tell [logs_intros]: "A c \<Longrightarrow> logs A (tell c)"
  by (simp add: logs_def exI [of _ "[c]"])

lemma logs_bind [logs_intros]:
  assumes "logs A m" and "\<And>r. logs A (f r)"
  shows "logs A (State_Monad.bind m f)"
  unfolding logs_def
proof
  fix s
  obtain r cs where 1: "run_state m s = (r, s\<lparr>calls := calls s @ cs\<rparr>)" "list_all A cs"
    using assms(1) by (rule logsE)
  let ?s = "s\<lparr>calls := calls s @ cs\<rparr>"
  obtain r' ds where 2: "run_state (f r) ?s = (r', ?s\<lparr>calls := calls ?s @ ds\<rparr>)" "list_all A ds"
    using assms(2) by (rule logsE)
  with 1 show "\<exists>r cs. run_state (State_Monad.bind m f) s = (r, s\<lparr>calls := calls s @ cs\<rparr>) \<and>
      list_all A cs"
    by (intro exI [of _ r'] exI [of _ "cs @ ds"]) simp
qed

lemma logs_if [logs_intros]:
  "(b \<Longrightarrow> logs A m) \<Longrightarrow> (\<not> b \<Longrightarrow> logs A n) \<Longrightarrow> logs A (if b then m else n)"
  by simp

lemma logs_case_prod [logs_intros]:
  "(\<And>x y. logs A (f x y)) \<Longrightarrow> logs A (case p of (x, y) \<Rightarrow> f x y)"
  by (cases p) auto

lemma logs_emits: "logs A m \<Longrightarrow> emits A m"
proof (rule emitsI)
  fix s
  assume "logs A m"
  then obtain r cs where "run_state m s = (r, s\<lparr>calls := calls s @ cs\<rparr>)" "list_all A cs"
    by (rule logsE)
  then show "\<exists>cs. calls (exec m s) = calls s @ cs \<and> list_all A cs" by auto
qed

lemma logs_mono: "logs A m \<Longrightarrow> (\<And>c. A c \<Longrightarrow> B c) \<Longrightarrow> logs B m"
  unfolding logs_def list_all_iff by meson

section \<open>Invariants that do not read the log\<close>

definition log_free :: "('a world_scheme \<Rightarrow> bool) \<Rightarrow> bool" where
  "log_free I \<longleftrightarrow> (\<forall>s cs. I (s\<lparr>calls := cs\<rparr>) = I s)"

lemma log_freeI: "(\<And>s cs. I (s\<lparr>calls := cs\<rparr>) = I s) \<Longrightarrow> log_free I"
  by (simp add: log_free_def)

lemma keeps_logs: "logs A m \<Longrightarrow> log_free I \<Longrightarrow> keeps I m"
  unfolding keeps_def log_free_def by (metis logsE snd_conv)

lemma keeps_ask [keeps_intros]: "log_free I \<Longrightarrow> keeps I (ask f c)"
  by (simp add: keeps_def log_free_def)

lemma keeps_tell [keeps_intros]: "log_free I \<Longrightarrow> keeps I (tell c)"
  by (simp add: keeps_def log_free_def)

end
