(* ===== verification/Peripherals.thy ===== *)
theory Peripherals
  imports Platform
begin

text \<open>
  The two small drivers of the application core: reading the BME680
  (\<^verbatim>\<open>app/src/sensor.c\<close>) and blinking the LED (\<^verbatim>\<open>app/src/led.c\<close>, and the stubs of
  \<^verbatim>\<open>led.h\<close> for builds without \<^verbatim>\<open>CONFIG_APP_BLINK_LED\<close>).
\<close>

section \<open>Sensor\<close>

text \<open>The error code, or the measurement written through the out parameter.\<close>

definition sensor_data_get :: "env \<Rightarrow> int \<Rightarrow> ('a world_scheme, int + sensor_value) state" where
  "sensor_data_get e channel = do {
     ready \<leftarrow> ask (o_sensor_ready e) Sensor_ready;
     if \<not> ready then ret (Inl (- EAGAIN))
     else do {
       err \<leftarrow> ask (o_sensor_fetch e) Sensor_fetch;
       if err = 0 then do {
         (err, v) \<leftarrow> ask (o_sensor_get e) (Sensor_get channel);
         ret (if err = 0 then Inr v else Inl err)
       } else ret (Inl err)
     }
   }"

lemma sensor_data_get_fails [simp]:
  "result (sensor_data_get e ch) s \<noteq> Inl 0"
  by (auto simp: sensor_data_get_def EAGAIN_def split: prod.splits)

section \<open>LED\<close>

definition LED_INTERVAL_S :: nat where "LED_INTERVAL_S = 1"

definition led_blink_cb :: "('a world_scheme, unit) state" where
  "led_blink_cb = tell (Gpio_toggle Led_pin)"

definition led_stop_cb :: "env \<Rightarrow> ('a world_scheme, unit) state" where
  "led_stop_cb e = do {
     _ \<leftarrow> ask (o_gpio_configure e) (Gpio_configure Led_pin OUTPUT_INACTIVE);
     ret ()
   }"

definition led_blink_start :: "env \<Rightarrow> ('a world_scheme, int) state" where
  "led_blink_start e =
     (if cfg_blink_led e then do {
        ready \<leftarrow> ask (o_gpio_ready e) (Gpio_ready Led_pin);
        if \<not> ready then ret (- EAGAIN)
        else do {
          r \<leftarrow> ask (o_gpio_configure e) (Gpio_configure Led_pin OUTPUT_ACTIVE);
          if r < 0 then ret r
          else do {
            tell (Timer_start Led_timer LED_INTERVAL_S LED_INTERVAL_S);
            ret 0
          }
        }
      } else ret 0)"

definition led_blink_stop :: "env \<Rightarrow> ('a world_scheme, unit) state" where
  "led_blink_stop e = (if cfg_blink_led e then tell (Timer_stop Led_timer) else ret ())"

text \<open>The calls that belong to the LED.\<close>

fun is_led :: "call \<Rightarrow> bool" where
  "is_led (Gpio_ready p) = (p = Led_pin)"
| "is_led (Gpio_configure p _) = (p = Led_pin)"
| "is_led (Timer_start t _ _) = (t = Led_timer)"
| "is_led (Timer_stop t) = (t = Led_timer)"
| "is_led (Gpio_toggle p) = (p = Led_pin)"
| "is_led _ = False"

fun is_sensor :: "call \<Rightarrow> bool" where
  "is_sensor Sensor_ready = True"
| "is_sensor Sensor_fetch = True"
| "is_sensor (Sensor_get _) = True"
| "is_sensor _ = False"

text \<open>Both drivers touch the hardware only: they log their calls and nothing else.\<close>

fun starts_led :: "call \<Rightarrow> bool" where
  "starts_led (Gpio_ready p) = (p = Led_pin)"
| "starts_led (Gpio_configure p f) = (p = Led_pin \<and> f = OUTPUT_ACTIVE)"
| "starts_led (Timer_start t _ _) = (t = Led_timer)"
| "starts_led _ = False"

lemma starts_led_is_led: "starts_led c \<Longrightarrow> is_led c"
  by (cases c) auto

lemma logs_led_blink_start [logs_intros]: "logs starts_led (led_blink_start e)"
  unfolding led_blink_start_def by (intro logs_intros) auto

lemma logs_led_blink_stop [logs_intros]: "logs is_led (led_blink_stop e)"
  unfolding led_blink_stop_def by (intro logs_intros) auto

lemma logs_sensor_data_get [logs_intros]: "logs is_sensor (sensor_data_get e ch)"
  unfolding sensor_data_get_def by (intro logs_intros) auto

end
