(* ===== verification/App_Ipc.thy ===== *)
theory App_Ipc
  imports Platform
begin

text \<open>
  The application core's end of the inter-core endpoint, from \<^verbatim>\<open>app/src/main.c\<close>:
  sending a message and waiting for its acknowledgement, and the two endpoint
  callbacks.
\<close>

definition IPC_TIMEOUT_S :: nat where "IPC_TIMEOUT_S = 3"

definition ep_recv :: "ipc_msg \<Rightarrow> ('a world_scheme, unit) state" where
  "ep_recv pkt = (if msg_cmd pkt = SAT_CMD_OK then tell (Sem_give Sat_sem) else ret ())"

definition ep_bound :: "('a world_scheme, unit) state" where
  "ep_bound = tell (Sem_give Bound_sem)"

definition ipc_send :: "env \<Rightarrow> ipc_msg \<Rightarrow> ('a world_scheme, int) state" where
  "ipc_send e m = do {
     r \<leftarrow> ask (o_ipc_send e) (Ipc_send m);
     if r < 0 then ret r
     else ask (o_sem_take e) (Sem_take Sat_sem (Seconds IPC_TIMEOUT_S))
   }"

fun is_ipc_send :: "call \<Rightarrow> bool" where
  "is_ipc_send (Ipc_send _) = True"
| "is_ipc_send (Sem_take s _) = (s = Sat_sem)"
| "is_ipc_send _ = False"

lemma emits_ipc_send [emits_intros]:
  "(\<And>c. is_ipc_send c \<Longrightarrow> A c) \<Longrightarrow> emits A (ipc_send e m)"
  unfolding ipc_send_def by (intro emits_intros) auto

text \<open>The two ways a send can end, and what each leaves in the log.\<close>

lemma ipc_send_refused:
  "o_ipc_send e (calls s @ [Ipc_send m]) < 0 \<Longrightarrow>
   run_state (ipc_send e m) s =
     (o_ipc_send e (calls s @ [Ipc_send m]), s\<lparr>calls := calls s @ [Ipc_send m]\<rparr>)"
  by (simp add: ipc_send_def)

lemma ipc_send_sent:
  "\<not> o_ipc_send e (calls s @ [Ipc_send m]) < 0 \<Longrightarrow>
   calls (exec (ipc_send e m) s) =
     calls s @ [Ipc_send m, Sem_take Sat_sem (Seconds 3)]"
  by (simp add: ipc_send_def IPC_TIMEOUT_S_def)

end
