(* ===== verification/Sat_Board.thy ===== *)
theory Sat_Board
  imports Peripherals App_Ipc
begin

text \<open>
  \<^verbatim>\<open>app/src/sat_board.c\<close>, first part: the state of the satellite transmitter, its
  setters, the board functions the Hubble SDK calls back, and the assembly of the
  payload of a packet. The pass table and the transmission itself are in
  \<open>Sat_Schedule\<close> and \<open>Sat_Transmit\<close>.
\<close>

section \<open>State\<close>

definition HUBBLE_NUMBER_OF_TIMESTAMPS :: nat where
  "HUBBLE_NUMBER_OF_TIMESTAMPS = 300"

record sat_pass =
  sp_timestamp :: u32
  sp_duration :: u16

text \<open>
  The static variables. \<open>g_payload_type\<close> is the C \<^verbatim>\<open>enum\<close> as an integer, because
  the sources store sensor channel numbers in it. Both the pass-prediction and the
  timestamp variables are kept; a build uses one of the two groups.
\<close>

record sat_state = world +
  g_power :: u8
  g_retransmission_frequency_s :: u8
  g_custom_payload_buffer :: bytes
  g_custom_payload_size :: u8
  g_payload_type :: int
  g_transmitting :: bool
  g_next_pass :: hubble_sat_pass_info
  g_device_pos :: hubble_sat_device_pos
  g_sat_passes_idx :: u16
  g_sat_passes_count :: u16
  g_sat_passes :: "sat_pass list"

section \<open>Payload types\<close>

text \<open>\<^verbatim>\<open>enum sat_payload_type\<close> of \<^verbatim>\<open>app.h\<close>: \<open>CUSTOM\<close> is the first enumerator, the
  sensor types are channel numbers and \<open>INVALID\<close> follows \<open>HUMIDITY\<close>.\<close>

definition CUSTOM :: int where "CUSTOM = 0"
definition GAUGE_VOLTAGE :: "env \<Rightarrow> int" where "GAUGE_VOLTAGE e = CHAN_GAUGE_VOLTAGE e"
definition TEMP :: "env \<Rightarrow> int" where "TEMP e = CHAN_AMBIENT_TEMP e"
definition PRESSURE :: "env \<Rightarrow> int" where "PRESSURE e = CHAN_PRESS e"
definition HUMIDITY :: "env \<Rightarrow> int" where "HUMIDITY e = CHAN_HUMIDITY e"
definition INVALID :: "env \<Rightarrow> int" where "INVALID e = CHAN_HUMIDITY e + 1"

lemmas payload_type_defs =
  CUSTOM_def GAUGE_VOLTAGE_def TEMP_def PRESSURE_def HUMIDITY_def INVALID_def

text \<open>
  What the sources rely on in the external headers: the payload buffer holds the
  longest payload they build (13 bytes), and the four sensor channels are distinct
  and not channel 0, the number \<open>CUSTOM\<close> has.
\<close>

definition headers_ok :: "env \<Rightarrow> bool" where
  "headers_ok e \<longleftrightarrow> 13 \<le> PAYLOAD_MAX e \<and> PAYLOAD_MAX e < 256 \<and>
     distinct [CUSTOM, CHAN_AMBIENT_TEMP e, CHAN_PRESS e, CHAN_HUMIDITY e,
               CHAN_GAUGE_VOLTAGE e, CHAN_MAX e]"

section \<open>Setters\<close>

definition sat_retransmission_set :: "u8 \<Rightarrow> ('a sat_state_scheme, int) state" where
  "sat_retransmission_set retransmission_s = do {
     modify (\<lambda>s. s\<lparr>g_retransmission_frequency_s := retransmission_s\<rparr>);
     ret 0
   }"

definition sat_power_set :: "u8 \<Rightarrow> ('a sat_state_scheme, int) state" where
  "sat_power_set pwr = do { modify (\<lambda>s. s\<lparr>g_power := pwr\<rparr>); ret 0 }"

definition sat_payload_set ::
    "int \<Rightarrow> bytes \<Rightarrow> nat \<Rightarrow> ('a sat_state_scheme, int) state" where
  "sat_payload_set type data len = do {
     modify (\<lambda>s. s\<lparr>g_payload_type := type\<rparr>);
     (if len \<noteq> 0 then do {
       cap \<leftarrow> gets (\<lambda>s. length (g_custom_payload_buffer s));
       guard_ok (len \<le> cap \<and> len \<le> length data);
       modify (\<lambda>s. s\<lparr>g_custom_payload_buffer :=
                       blit (g_custom_payload_buffer s) 0 (take len data)\<rparr>);
       modify (\<lambda>s. s\<lparr>g_custom_payload_size := of_nat len\<rparr>)
     } else ret ());
     ret 0
   }"

definition device_location_set :: "env \<Rightarrow> u64 \<Rightarrow> u64 \<Rightarrow> ('a sat_state_scheme, unit) state" where
  "device_location_set e la lo =
     (if cfg_pass_prediction e
      then modify (\<lambda>s. s\<lparr>g_device_pos := \<lparr>lat = la, lon = lo\<rparr>\<rparr>)
      else ret ())"

definition sat_is_transmitting :: "('a sat_state_scheme, bool) state" where
  "sat_is_transmitting = gets g_transmitting"

section \<open>Board functions called by the SDK\<close>

definition hubble_sat_board_init :: "('a world_scheme, int) state" where
  "hubble_sat_board_init = ret 0"

definition hubble_sat_board_enable :: "env \<Rightarrow> ('a world_scheme, int) state" where
  "hubble_sat_board_enable e = do {
     _ \<leftarrow> ipc_send e (base_msg SAT_CMD_ENABLE);
     ret 0
   }"

definition hubble_sat_board_disable :: "env \<Rightarrow> ('a world_scheme, int) state" where
  "hubble_sat_board_disable e = do {
     _ \<leftarrow> ipc_send e (base_msg SAT_CMD_DISABLE);
     ret 0
   }"

definition hubble_sat_board_packet_send :: "env \<Rightarrow> bytes \<Rightarrow> ('a world_scheme, int) state" where
  "hubble_sat_board_packet_send e pkt = do {
     _ \<leftarrow> ipc_send e (Packet_msg \<lparr>base = \<lparr>cmd = SAT_CMD_SEND\<rparr>, packet = pkt\<rparr>);
     ret 0
   }"

section \<open>Payload assembly\<close>

definition channel_to_hubble :: "env \<Rightarrow> int \<Rightarrow> u8" where
  "channel_to_hubble e channel =
     (if channel = CHAN_AMBIENT_TEMP e then 1
      else if channel = CHAN_PRESS e then 2
      else if channel = CHAN_HUMIDITY e then 3
      else if channel = CHAN_GAUGE_VOLTAGE e then 4
      else 0)"

definition nearest_packet_len_get :: "nat \<Rightarrow> nat" where
  "nearest_packet_len_get pkt_len =
     (if pkt_len = 0 then 0
      else if pkt_len < 4 then 4
      else if pkt_len < 9 then 9
      else if pkt_len < 13 then 13
      else pkt_len)"

definition sensor_bytes :: "sensor_value \<Rightarrow> bytes" where
  "sensor_bytes v = le_bytes 4 (unat (val1 v)) @ le_bytes 4 (unat (val2 v))"

lemma length_sensor_bytes [simp]: "length (sensor_bytes v) = 8"
  by (simp add: sensor_bytes_def)

text \<open>
  The first half of \<^verbatim>\<open>sat_transmit\<close>: \<open>pkt_buffer\<close> and \<open>pkt_len\<close> as they stand
  before the length is rounded. A sensor that cannot be read leaves the length 0.
\<close>

definition copy_to_packet :: "bytes \<Rightarrow> bytes \<Rightarrow> ('a world_scheme, bytes) state" where
  "copy_to_packet buf src = do {
     guard_ok (1 + length src \<le> length buf);
     ret (blit buf 1 src)
   }"

definition sat_payload_build :: "env \<Rightarrow> ('a sat_state_scheme, bytes \<times> nat) state" where
  "sat_payload_build e = (
     let pkt_buffer = replicate (PAYLOAD_MAX e) 0 in
     if \<not> cfg_fuel_gauge e then ret (pkt_buffer, 0)
     else do {
       type \<leftarrow> gets g_payload_type;
       guard_ok (0 < length pkt_buffer);
       let pkt_buffer = pkt_buffer[0 := channel_to_hubble e type];
       if type = CUSTOM then do {
         size \<leftarrow> gets (\<lambda>s. unat (g_custom_payload_size s));
         src \<leftarrow> gets g_custom_payload_buffer;
         guard_ok (size \<le> length src);
         buf \<leftarrow> copy_to_packet pkt_buffer (take size src);
         ret (buf, PAYLOAD_MAX e)
       }
       else if type = GAUGE_VOLTAGE e then do {
         (r, charge, _) \<leftarrow> ask (o_fuel_gauge e) (Fuel_gauge_get [RELATIVE_STATE_OF_CHARGE]);
         if r = 0 then do {
           buf \<leftarrow> copy_to_packet pkt_buffer [charge];
           ret (buf, 1 + 1)
         } else ret (pkt_buffer, 0)
       }
       else do {
         r \<leftarrow> sensor_data_get e type;
         (case r of
            Inr v \<Rightarrow> do {
              buf \<leftarrow> copy_to_packet pkt_buffer (sensor_bytes v);
              ret (buf, 8 + 1)
            }
          | Inl _ \<Rightarrow> ret (pkt_buffer, 0))
       }
     })"

section \<open>Memory safety and contents of the payload\<close>

text \<open>
  What the setters keep of the payload variables: the custom buffer has its declared
  size and holds at most 12 bytes of text, the limit the shell enforces.
\<close>

definition board_ok :: "env \<Rightarrow> 'a sat_state_scheme \<Rightarrow> bool" where
  "board_ok e s \<longleftrightarrow> length (g_custom_payload_buffer s) = PAYLOAD_MAX e \<and>
     unat (g_custom_payload_size s) \<le> 12"

fun is_payload_read :: "call \<Rightarrow> bool" where
  "is_payload_read (Fuel_gauge_get _) = True"
| "is_payload_read c = is_sensor c"

lemma sensor_is_payload_read: "is_sensor c \<Longrightarrow> is_payload_read c"
  by (cases c) auto

lemma nearest_packet_len_cases:
  "nearest_packet_len_get 0 = 0" "nearest_packet_len_get (Suc (Suc 0)) = 4"
  "nearest_packet_len_get 9 = 13" "13 \<le> n \<Longrightarrow> nearest_packet_len_get n = n"
  by (simp_all add: nearest_packet_len_get_def)

lemma run_copy_to_packet [simp]:
  "1 + length src \<le> length buf \<Longrightarrow> run_state (copy_to_packet buf src) s = (blit buf 1 src, s)"
  by (simp add: copy_to_packet_def)

lemma hd_blit_1: "buf \<noteq> [] \<Longrightarrow> hd (blit buf (Suc 0) src) = hd buf"
  by (cases buf) (simp_all add: blit_def)

lemma sat_payload_build_run:
  assumes "headers_ok e" and "board_ok e s"
  shows "\<exists>buf len cs. run_state (sat_payload_build e) s = ((buf, len), s\<lparr>calls := calls s @ cs\<rparr>) \<and>
     list_all is_payload_read cs \<and> length buf = PAYLOAD_MAX e \<and>
     nearest_packet_len_get len \<in> {0, 4, 13, PAYLOAD_MAX e} \<and>
     (cfg_fuel_gauge e \<longrightarrow> hd buf = channel_to_hubble e (g_payload_type s))"
proof -
  let ?buf = "(replicate (PAYLOAD_MAX e) 0)[0 := channel_to_hubble e (g_payload_type s)]"
  have sz: "13 \<le> PAYLOAD_MAX e" "length ?buf = PAYLOAD_MAX e"
    "hd ?buf = channel_to_hubble e (g_payload_type s)" "?buf \<noteq> []"
    using assms(1) by (auto simp: headers_ok_def hd_conv_nth)
  have bo: "length (g_custom_payload_buffer s) = PAYLOAD_MAX e"
    "unat (g_custom_payload_size s) \<le> 12"
    using assms(2) by (auto simp: board_ok_def)
  note near = nearest_packet_len_cases
  consider (none) "\<not> cfg_fuel_gauge e"
    | (custom) "cfg_fuel_gauge e" "g_payload_type s = CUSTOM"
    | (gauge) "cfg_fuel_gauge e" "g_payload_type s \<noteq> CUSTOM" "g_payload_type s = GAUGE_VOLTAGE e"
    | (sensor) "cfg_fuel_gauge e" "g_payload_type s \<noteq> CUSTOM" "g_payload_type s \<noteq> GAUGE_VOLTAGE e"
    by blast
  then show ?thesis
  proof cases
    case none
    then show ?thesis using sz near
      by (simp add: sat_payload_build_def exI [of _ "[]"])
  next
    case custom
    then show ?thesis using sz bo near
      by (simp add: sat_payload_build_def Let_def exI [of _ "[]"] hd_blit_1)
  next
    case gauge
    obtain r c v where q: "o_fuel_gauge e (calls s @ [Fuel_gauge_get [RELATIVE_STATE_OF_CHARGE]]) = (r, c, v)"
      using prod_cases3 by blast
    from gauge q show ?thesis using sz near
      by (cases "r = 0")
        (simp_all add: sat_payload_build_def Let_def hd_blit_1
          exI [of _ "[Fuel_gauge_get [RELATIVE_STATE_OF_CHARGE]]"])
  next
    case sensor
    obtain r cs where q: "run_state (sensor_data_get e (g_payload_type s)) s =
        (r, s\<lparr>calls := calls s @ cs\<rparr>)" "list_all is_sensor cs"
      using logs_sensor_data_get by (rule logsE)
    have "list_all is_payload_read cs"
      using q(2) sensor_is_payload_read by (auto simp: list_all_iff)
    with sensor q(1) show ?thesis using sz near
      by (cases r) (auto simp: sat_payload_build_def Let_def hd_blit_1)
  qed
qed

end
