(* ===== verification/Nvs.thy ===== *)
theory Nvs
  imports Sat_Board
begin

text \<open>
  Persistent storage, \<^verbatim>\<open>app/src/nvs.c\<close>: mounting the partition, and the typed
  read and write of an entry. The contract towards \<^verbatim>\<open>main.c\<close>, which stores the
  device key here, is the locale \<open>key_store\<close>.
\<close>

section \<open>Operations\<close>

datatype hubble_nvs_id = HUBBLE_KEY_ID

fun nvs_id :: "hubble_nvs_id \<Rightarrow> nat" where
  "nvs_id HUBBLE_KEY_ID = 0"

text \<open>The fields of \<^verbatim>\<open>struct nvs_fs\<close> the sources fill in.\<close>

record nvs_state = sat_state +
  fs_offset :: nat
  fs_sector_size :: nat
  fs_sector_count :: nat

definition nvs_init :: "env \<Rightarrow> ('a nvs_state_scheme, int) state" where
  "nvs_init e = do {
     ready \<leftarrow> ask (o_flash_ready e) Flash_device_ready;
     if \<not> ready then ret (- 1)
     else do {
       modify (\<lambda>s. s\<lparr>fs_offset := NVS_PARTITION_OFFSET e\<rparr>);
       (err, size) \<leftarrow> ask (o_flash_info e) Flash_page_info;
       if err \<noteq> 0 then ret (- 1)
       else do {
         modify (\<lambda>s. s\<lparr>fs_sector_size := size\<rparr>);
         guard_ok (size \<noteq> 0);
         modify (\<lambda>s. s\<lparr>fs_sector_count := NVS_PARTITION_SIZE e div size\<rparr>);
         err \<leftarrow> ask (o_nvs_mount e) Nvs_mount;
         ret (if err \<noteq> 0 then - 1 else 0)
       }
     }
   }"

text \<open>The return code and the bytes stored in the caller's buffer.\<close>

definition hubble_nvs_read ::
    "env \<Rightarrow> hubble_nvs_id \<Rightarrow> nat \<Rightarrow> ('a world_scheme, int \<times> bytes) state" where
  "hubble_nvs_read e i len = ask (o_nvs_read e) (Nvs_read (nvs_id i) len)"

definition hubble_nvs_write ::
    "env \<Rightarrow> hubble_nvs_id \<Rightarrow> bytes \<Rightarrow> ('a world_scheme, int) state" where
  "hubble_nvs_write e i data = do {
     tell (Nvs_delete (nvs_id i));
     ask (o_nvs_write e) (Nvs_write (nvs_id i) data)
   }"

section \<open>The contract of the store\<close>

text \<open>
  \<open>contents s i\<close> is the value a load of entry \<open>i\<close> would find, if one is known;
  \<open>ok\<close> stands for the guarantees of the layer below.
\<close>

locale key_store =
  fixes ok :: bool
    and contents :: "'s \<Rightarrow> hubble_nvs_id \<Rightarrow> bytes option"
    and load :: "hubble_nvs_id \<Rightarrow> nat \<Rightarrow> ('s, int \<times> bytes) state"
    and save :: "hubble_nvs_id \<Rightarrow> bytes \<Rightarrow> ('s, int) state"
  assumes load_contents: "ok \<Longrightarrow> contents s i = Some d \<Longrightarrow>
      result (load i (length d)) s = (int (length d), d)"
    and load_keeps: "contents (exec (load i n) s) j = contents s j"
    and save_contents: "result (save i d) s = int (length d) \<Longrightarrow>
      contents (exec (save i d) s) i = Some d"
begin

lemma load_after_save:
  assumes ok and "result (save i d) s = int (length d)"
    and "contents t i = contents (exec (save i d) s) i"
  shows "result (load i (length d)) t = (int (length d), d)"
    and "contents (exec (load i n) t) i = Some d"
  using assms save_contents load_contents load_keeps by metis+

end

section \<open>The log as the store\<close>

text \<open>
  The last write of an entry the log holds (newest call first), if it reported the
  whole value written and the entry was not deleted since.
\<close>

fun nvs_last :: "env \<Rightarrow> nat \<Rightarrow> call list \<Rightarrow> bytes option" where
  "nvs_last e i [] = None"
| "nvs_last e i (c # cs) = (case c of
     Nvs_write j d \<Rightarrow>
       if j = i
       then (if o_nvs_write e (rev (c # cs)) = int (length d) then Some d else None)
       else nvs_last e i cs
   | Nvs_delete j \<Rightarrow> if j = i then None else nvs_last e i cs
   | _ \<Rightarrow> nvs_last e i cs)"

definition nvs_contents :: "env \<Rightarrow> 'a world_scheme \<Rightarrow> hubble_nvs_id \<Rightarrow> bytes option" where
  "nvs_contents e s i = nvs_last e (nvs_id i) (rev (calls s))"

text \<open>Zephyr's NVS: a read finds the value last written, up to the length asked for.\<close>

definition nvs_ok :: "env \<Rightarrow> bool" where
  "nvs_ok e \<longleftrightarrow> (\<forall>tr i d. nvs_last e i (rev tr) = Some d \<longrightarrow>
     o_nvs_read e (tr @ [Nvs_read i (length d)]) = (int (length d), d))"

interpretation nvs: key_store "nvs_ok e" "nvs_contents e" "hubble_nvs_read e" "hubble_nvs_write e"
  for e :: env
  by unfold_locales
    (auto simp: nvs_contents_def nvs_ok_def hubble_nvs_read_def hubble_nvs_write_def)

text \<open>Calls that leave an entry alone.\<close>

fun writes_entry :: "nat \<Rightarrow> call \<Rightarrow> bool" where
  "writes_entry i (Nvs_write j _) = (j = i)"
| "writes_entry i (Nvs_delete j) = (j = i)"
| "writes_entry i _ = False"

lemma nvs_last_frame:
  "list_all (\<lambda>c. \<not> writes_entry i c) cs \<Longrightarrow> nvs_last e i (cs @ tr) = nvs_last e i tr"
proof (induction cs)
  case Nil
  then show ?case by simp
next
  case (Cons c cs)
  then show ?case by (cases c) auto
qed

end
