(* ===== verification/App_Key.thy ===== *)
theory App_Key
  imports Nvs
begin

text \<open>
  The device key, from \<^verbatim>\<open>app/src/main.c\<close>: decoding and storing a new key, loading
  it at boot, and the test the shell uses.
\<close>

record key_state = nvs_state +
  g_hubble_key :: bytes

text \<open>\<^verbatim>\<open>ceil((double)CONFIG_HUBBLE_KEY_SIZE / 3) * 4\<close>, the length of the base64 text.\<close>

definition key_text_len :: "env \<Rightarrow> nat" where
  "key_text_len e = (cfg_key_size e + 2) div 3 * 4"

text \<open>
  \<^verbatim>\<open>base64_decode\<close> replies with its return code and the bytes it stored in the key
  buffer, at most the size it was given.
\<close>

definition crypto_key_set :: "env \<Rightarrow> string \<Rightarrow> nat \<Rightarrow> ('a key_state_scheme, int) state" where
  "crypto_key_set e key len =
     (if len \<noteq> key_text_len e then ret (- EINVAL)
      else do {
        (r, out) \<leftarrow> ask (o_base64 e) (Base64_decode (cfg_key_size e) (take len key));
        modify (\<lambda>s. s\<lparr>g_hubble_key := blit (g_hubble_key s) 0 (take (cfg_key_size e) out)\<rparr>);
        (if r = 0 then do {
           k \<leftarrow> gets g_hubble_key;
           _ \<leftarrow> hubble_nvs_write e HUBBLE_KEY_ID k;
           tell (Sem_give Key_sem)
         } else ret ());
        ret r
      })"

definition key_get :: "env \<Rightarrow> ('a key_state_scheme, int) state" where
  "key_get e = do {
     (r, d) \<leftarrow> hubble_nvs_read e HUBBLE_KEY_ID (cfg_key_size e);
     modify (\<lambda>s. s\<lparr>g_hubble_key := blit (g_hubble_key s) 0 (take (cfg_key_size e) d)\<rparr>);
     ret (if r = int (cfg_key_size e) then 0 else - ENOENT)
   }"

definition crypto_key_is_set :: "env \<Rightarrow> ('a key_state_scheme, bool) state" where
  "crypto_key_is_set e = gets (\<lambda>s. g_hubble_key s \<noteq> replicate (cfg_key_size e) 0)"

text \<open>The key buffer keeps its declared size.\<close>

definition key_ok :: "env \<Rightarrow> 'a key_state_scheme \<Rightarrow> bool" where
  "key_ok e s \<longleftrightarrow> length (g_hubble_key s) = cfg_key_size e"

lemma keeps_key_ok_set: "keeps (key_ok e) (crypto_key_set e key len)"
  by (auto simp: keeps_def crypto_key_set_def key_ok_def hubble_nvs_write_def split: prod.splits)

lemma keeps_key_ok_get: "keeps (key_ok e) (key_get e)"
  by (auto simp: keeps_def key_get_def key_ok_def hubble_nvs_read_def split: prod.splits)

text \<open>Every branch of \<open>crypto_key_set\<close>.\<close>

lemma crypto_key_set_bad_length:
  "len \<noteq> key_text_len e \<Longrightarrow> run_state (crypto_key_set e key len) s = (- EINVAL, s)"
  by (simp add: crypto_key_set_def)

lemma crypto_key_set_rejected:
  assumes "len = key_text_len e" and "r \<noteq> 0"
    and "o_base64 e (calls s @ [Base64_decode (cfg_key_size e) (take len key)]) = (r, out)"
  shows "run_state (crypto_key_set e key len) s =
     (r, s\<lparr>calls := calls s @ [Base64_decode (cfg_key_size e) (take len key)],
           g_hubble_key := blit (g_hubble_key s) 0 (take (cfg_key_size e) out)\<rparr>)"
  using assms by (simp add: crypto_key_set_def)

lemma crypto_key_set_accepted:
  assumes "len = key_text_len e"
    and "o_base64 e (calls s @ [Base64_decode (cfg_key_size e) (take len key)]) = (0, out)"
  defines "k \<equiv> blit (g_hubble_key s) 0 (take (cfg_key_size e) out)"
  shows "run_state (crypto_key_set e key len) s =
     (0, s\<lparr>calls := calls s @ [Base64_decode (cfg_key_size e) (take len key),
             Nvs_delete 0, Nvs_write 0 k, Sem_give Key_sem],
           g_hubble_key := k\<rparr>)"
  using assms by (simp add: crypto_key_set_def hubble_nvs_write_def)

end
