(* ===== verification/Ble.thy ===== *)
theory Ble
  imports App_Key
begin

text \<open>
  \<^verbatim>\<open>app/src/ble.c\<close>, advertising: the state of the BLE side, starting and stopping
  the Hubble beacon, the provisioning advertisement, the timer, work and connection
  callbacks, and the two entry points \<open>ble_enable\<close> and \<open>ble_disable\<close>, which hold
  \<^verbatim>\<open>radio_mutex\<close>. \<^verbatim>\<open>utc_time\<close>, defined in \<^verbatim>\<open>main.c\<close>, is part of this state.
\<close>

section \<open>State\<close>

definition HUBBLE_BLE_UUID_CONNECTABLE :: nat where
  "HUBBLE_BLE_UUID_CONNECTABLE = 0xFCA7"

definition HUBBLE_BLE_BUFFER_LEN :: nat where
  "HUBBLE_BLE_BUFFER_LEN = 31"

record ble_state = key_state +
  g_utc_time :: u64
  g_ble_off_by_user :: bool
  g_app_ad :: "bt_data list"

definition app_ad_init :: "bt_data list" where
  "app_ad_init =
     [\<lparr>ad_kind = DATA_UUID16_ALL, ad_len = 2, ad_bytes = le_bytes 2 HUBBLE_BLE_UUID_CONNECTABLE\<rparr>,
      \<lparr>ad_kind = DATA_SVC_DATA16, ad_len = 2, ad_bytes = le_bytes 2 HUBBLE_BLE_UUID_CONNECTABLE\<rparr>]"

definition ble_sd :: "env \<Rightarrow> bt_data list" where
  "ble_sd e = [\<lparr>ad_kind = DATA_NAME_COMPLETE, ad_len = length (cfg_device_name e),
                ad_bytes = cfg_device_name e\<rparr>]"

section \<open>Advertising\<close>

definition ble_init :: "env \<Rightarrow> ('a ble_state_scheme, int) state" where
  "ble_init e = do {
     ad \<leftarrow> gets g_app_ad;
     ask (o_adv_start e)
       (Adv_start [USE_NRPA, OPT_CONN] FAST_INT_MIN_2 FAST_INT_MAX_2 (take 2 ad) (ble_sd e))
   }"

definition ble_adv_start :: "env \<Rightarrow> ('a ble_state_scheme, int) state" where
  "ble_adv_start e = do {
     tell (Timer_start Ble_timer (cfg_adv_frequency e) 0);
     (err, out) \<leftarrow> ask (o_advertise_get e) (Ble_advertise_get HUBBLE_BLE_BUFFER_LEN);
     if err \<noteq> 0 then ret err
     else do {
       modify (\<lambda>s. s\<lparr>g_app_ad := (g_app_ad s)
         [0 := \<lparr>ad_kind = DATA_UUID16_ALL, ad_len = 2, ad_bytes = le_bytes 2 (HUBBLE_BLE_UUID e)\<rparr>,
          1 := \<lparr>ad_kind = DATA_SVC_DATA16, ad_len = length out, ad_bytes = out\<rparr>]\<rparr>);
       ad \<leftarrow> gets g_app_ad;
       ask (o_adv_start e) (Adv_start [USE_NRPA] SLOW_INT_MIN SLOW_INT_MAX ad [])
     }
   }"

definition ble_adv_stop :: "('a world_scheme, unit) state" where
  "ble_adv_stop = do { tell Adv_stop; tell (Timer_stop Ble_timer) }"

section \<open>Callbacks\<close>

definition ble_work_handler :: "env \<Rightarrow> ('a ble_state_scheme, unit) state" where
  "ble_work_handler e = do {
     ble_adv_stop;
     _ \<leftarrow> ble_adv_start e;
     ret ()
   }"

definition timer_ble_cb :: "('a world_scheme, unit) state" where
  "timer_ble_cb = tell (Work_submit Ble_work)"

definition adv_provisioning_work_handler :: "env \<Rightarrow> ('a ble_state_scheme, unit) state" where
  "adv_provisioning_work_handler e = do { _ \<leftarrow> ble_init e; ret () }"

definition connected_cb :: "('a world_scheme, unit) state" where
  "connected_cb = tell (Timer_stop Ble_timer)"

definition disconnected_cb :: "('a ble_state_scheme, unit) state" where
  "disconnected_cb = do {
     utc_time \<leftarrow> gets g_utc_time;
     if utc_time \<noteq> 0 then tell (Sem_give Init_sem)
     else tell (Work_submit Provisioning_work)
   }"

section \<open>Enabling and disabling\<close>

text \<open>What \<^verbatim>\<open>ble_enable\<close> does between taking the mutex and its label \<^verbatim>\<open>end\<close>.\<close>

definition ble_enable_body :: "env \<Rightarrow> bool \<Rightarrow> ('a ble_state_scheme, unit) state" where
  "ble_enable_body e user_requested = do {
     off \<leftarrow> gets g_ble_off_by_user;
     if \<not> user_requested \<and> off then ret ()
     else do {
       (if user_requested then modify (\<lambda>s. s\<lparr>g_ble_off_by_user := False\<rparr>) else ret ());
       err \<leftarrow> ask (o_bt_enable e) Bt_enable;
       if err \<noteq> 0 \<and> err \<noteq> - EALREADY e then ret ()
       else do {
         utc_time \<leftarrow> gets g_utc_time;
         _ \<leftarrow> (if utc_time = 0 then ble_init e else ble_adv_start e);
         ret ()
       }
     }
   }"

definition ble_enable :: "env \<Rightarrow> bool \<Rightarrow> ('a ble_state_scheme, unit) state" where
  "ble_enable e user_requested = do {
     tell (Mutex_lock Radio_mutex);
     ble_enable_body e user_requested;
     tell (Mutex_unlock Radio_mutex)
   }"

definition ble_disable :: "bool \<Rightarrow> ('a ble_state_scheme, unit) state" where
  "ble_disable user_requested = do {
     tell (Mutex_lock Radio_mutex);
     (if user_requested then modify (\<lambda>s. s\<lparr>g_ble_off_by_user := True\<rparr>) else ret ());
     ble_adv_stop;
     tell Bt_disable;
     tell (Mutex_unlock Radio_mutex)
   }"

section \<open>Operations that hold the radio mutex\<close>

text \<open>Calls made between the lock and the unlock of a critical section.\<close>

fun is_mutex_op :: "call \<Rightarrow> bool" where
  "is_mutex_op (Mutex_lock m) = (m = Radio_mutex)"
| "is_mutex_op (Mutex_unlock m) = (m = Radio_mutex)"
| "is_mutex_op _ = False"

text \<open>How many times the mutex is held after a log that starts with it free.\<close>

fun lock_depth :: "call list \<Rightarrow> int" where
  "lock_depth [] = 0"
| "lock_depth (c # cs) =
     (if c = Mutex_lock Radio_mutex then 1 else if c = Mutex_unlock Radio_mutex then - 1 else 0)
     + lock_depth cs"

lemma lock_depth_append [simp]: "lock_depth (cs @ ds) = lock_depth cs + lock_depth ds"
  by (induction cs) auto

lemma lock_depth_none: "list_all (\<lambda>c. \<not> is_mutex_op c) cs \<Longrightarrow> lock_depth cs = 0"
  by (induction cs) (auto simp: split: if_splits)

text \<open>
  The contract of an operation that runs under the radio mutex: it takes the mutex
  first, releases it last, and does not touch it in between. \<open>body\<close> is a predicate on
  the calls it makes while it holds the mutex.
\<close>

locale radio_section =
  fixes op :: "('a world_scheme, unit) state"
    and body :: "call \<Rightarrow> bool"
  assumes section_shape: "\<exists>cs. calls (exec op s) =
      calls s @ [Mutex_lock Radio_mutex] @ cs @ [Mutex_unlock Radio_mutex] \<and>
      list_all (\<lambda>c. body c \<and> \<not> is_mutex_op c) cs"
begin

lemma section_balanced: "lock_depth (calls (exec op s)) = lock_depth (calls s)"
proof -
  obtain cs where cs: "calls (exec op s) =
      calls s @ [Mutex_lock Radio_mutex] @ cs @ [Mutex_unlock Radio_mutex]"
      "list_all (\<lambda>c. body c \<and> \<not> is_mutex_op c) cs"
    using section_shape by blast
  have "lock_depth cs = 0"
    by (rule lock_depth_none) (use cs(2) in \<open>auto simp: list_all_iff\<close>)
  with cs(1) show ?thesis by simp
qed

text \<open>No call of the section is made while the mutex is free.\<close>

lemma section_holds:
  assumes "calls (exec op s) = calls s @ pre @ [c] @ post" and "\<not> is_mutex_op c"
  shows "lock_depth (calls s @ pre) = lock_depth (calls s) + 1" and "body c"
proof -
  obtain cs where cs: "calls (exec op s) =
      calls s @ [Mutex_lock Radio_mutex] @ cs @ [Mutex_unlock Radio_mutex]"
      "list_all (\<lambda>c. body c \<and> \<not> is_mutex_op c) cs"
    using section_shape by blast
  with assms(1) have eq: "pre @ c # post = Mutex_lock Radio_mutex # cs @ [Mutex_unlock Radio_mutex]"
    by simp
  with assms(2) obtain ds where pre: "pre = Mutex_lock Radio_mutex # ds"
    by (cases pre) auto
  with eq have eq2: "ds @ c # post = cs @ [Mutex_unlock Radio_mutex]" by simp
  with assms(2) obtain es where "post = es @ [Mutex_unlock Radio_mutex]"
    by (cases post rule: rev_cases) auto
  with eq2 have cs': "cs = ds @ c # es" by simp
  then show "body c" using cs(2) by simp
  have "lock_depth ds = 0"
    by (rule lock_depth_none) (use cs(2) cs' in \<open>auto simp: list_all_iff\<close>)
  with pre show "lock_depth (calls s @ pre) = lock_depth (calls s) + 1" by simp
qed

end

text \<open>What the two sections do with the radio.\<close>

fun is_ble_on :: "call \<Rightarrow> bool" where
  "is_ble_on Bt_enable = True"
| "is_ble_on (Adv_start _ _ _ _ _) = True"
| "is_ble_on (Ble_advertise_get _) = True"
| "is_ble_on (Timer_start t _ _) = (t = Ble_timer)"
| "is_ble_on _ = False"

fun is_ble_off :: "call \<Rightarrow> bool" where
  "is_ble_off Bt_disable = True"
| "is_ble_off Adv_stop = True"
| "is_ble_off (Timer_stop t) = (t = Ble_timer)"
| "is_ble_off _ = False"

lemma ble_on_no_mutex: "is_ble_on c \<Longrightarrow> \<not> is_mutex_op c"
  by (cases c) auto

lemma ble_off_no_mutex: "is_ble_off c \<Longrightarrow> \<not> is_mutex_op c"
  by (cases c) auto

lemma emits_ble_init: "emits is_ble_on (ble_init e)"
  unfolding ble_init_def by (intro emits_intros) simp

lemma emits_ble_adv_start: "emits is_ble_on (ble_adv_start e)"
  unfolding ble_adv_start_def by (intro emits_intros emits_modify) simp_all

lemma emits_ble_enable_body: "emits is_ble_on (ble_enable_body e u)"
  unfolding ble_enable_body_def
  by (intro emits_intros emits_modify emits_ble_init emits_ble_adv_start) simp_all

lemma section_from_emits:
  assumes "emits A m" and "\<And>c. A c \<Longrightarrow> \<not> is_mutex_op c"
  shows "\<exists>cs. calls (exec (do { tell (Mutex_lock Radio_mutex); m; tell (Mutex_unlock Radio_mutex) }) s) =
      calls s @ [Mutex_lock Radio_mutex] @ cs @ [Mutex_unlock Radio_mutex] \<and>
      list_all (\<lambda>c. A c \<and> \<not> is_mutex_op c) cs"
proof -
  let ?s = "s\<lparr>calls := calls s @ [Mutex_lock Radio_mutex]\<rparr>"
  obtain cs where cs: "calls (exec m ?s) = calls ?s @ cs" "list_all A cs"
    using assms(1) by (rule emitsE)
  have "list_all (\<lambda>c. A c \<and> \<not> is_mutex_op c) cs"
    using cs(2) assms(2) by (auto simp: list_all_iff)
  with cs(1) show ?thesis
    by (cases "run_state m ?s") (auto intro!: exI [of _ cs])
qed

interpretation enable_section: radio_section "ble_enable e u" is_ble_on for e :: env and u :: bool
  by unfold_locales (subst ble_enable_def, rule section_from_emits
      [OF emits_ble_enable_body ble_on_no_mutex])

interpretation disable_section: radio_section "ble_disable u" is_ble_off for u :: bool
  by unfold_locales (simp add: ble_disable_def ble_adv_stop_def)

end
