(* ===== verification/Pass_Queue.thy ===== *)
theory Pass_Queue
  imports Sat_Board
begin

text \<open>
  The interface between the pass table of \<^verbatim>\<open>sat_board.c\<close> and its clients: the
  ephemeris command of \<^verbatim>\<open>ble.c\<close> adds passes, the main loop asks for the next window,
  the shell lists what is scheduled. The clients' lemmas are proved from the laws of
  the interface alone; \<open>Sat_Schedule\<close> discharges the laws for the table.
\<close>

text \<open>The test of the \<^verbatim>\<open>while\<close> loop of \<^verbatim>\<open>sat_schedule_next_transmission\<close>.\<close>

definition is_past :: "u64 \<Rightarrow> sat_pass \<Rightarrow> bool" where
  "is_past now_s p \<longleftrightarrow> ucast (sp_timestamp p) < now_s + 1"

lemma is_past_iff:
  "unat now_s < 2 ^ 64 - 1 \<Longrightarrow> is_past now_s p \<longleftrightarrow> unat (sp_timestamp p) \<le> unat now_s"
proof -
  assume "unat now_s < 2 ^ 64 - 1"
  then have "unat (now_s + 1) = Suc (unat now_s)"
    by (simp add: unat_word_ariths)
  then show ?thesis
    by (simp add: is_past_def word_less_nat_alt less_Suc_eq_le)
qed

section \<open>The order of passes\<close>

text \<open>Passes are ordered by their start, then by their duration.\<close>

instantiation sat_pass_ext :: (linorder) linorder
begin

definition less_eq_sat_pass_ext :: "'a sat_pass_scheme \<Rightarrow> 'a sat_pass_scheme \<Rightarrow> bool" where
  "p \<le> q \<longleftrightarrow> sp_timestamp p < sp_timestamp q \<or> sp_timestamp p = sp_timestamp q \<and>
     (sp_duration p < sp_duration q \<or>
      sp_duration p = sp_duration q \<and> sat_pass.more p \<le> sat_pass.more q)"

definition less_sat_pass_ext :: "'a sat_pass_scheme \<Rightarrow> 'a sat_pass_scheme \<Rightarrow> bool" where
  "p < q \<longleftrightarrow> p \<le> q \<and> \<not> q \<le> (p :: 'a sat_pass_scheme)"

instance
proof
  fix p q r :: "'a sat_pass_scheme"
  show "p < q \<longleftrightarrow> p \<le> q \<and> \<not> q \<le> p" by (rule less_sat_pass_ext_def)
  show "p \<le> p" by (simp add: less_eq_sat_pass_ext_def)
  show "p \<le> q \<Longrightarrow> q \<le> r \<Longrightarrow> p \<le> r" by (auto simp: less_eq_sat_pass_ext_def)
  show "p \<le> q \<Longrightarrow> q \<le> p \<Longrightarrow> p = q"
    by (cases p, cases q) (auto simp: less_eq_sat_pass_ext_def)
  show "p \<le> q \<or> q \<le> p" by (auto simp: less_eq_sat_pass_ext_def)
qed

end

lemma pass_le_timestamp: "p \<le> q \<Longrightarrow> sp_timestamp p \<le> sp_timestamp q"
  by (auto simp: less_eq_sat_pass_ext_def)

lemma sorted_passes: "sorted ps \<Longrightarrow> sorted (map (unat \<circ> sp_timestamp) ps)"
  by (induction ps) (auto intro: pass_le_timestamp simp flip: word_le_nat_alt)

lemma is_past_down: "p \<le> q \<Longrightarrow> is_past now_s q \<Longrightarrow> is_past now_s p"
  using pass_le_timestamp [of p q]
  by (auto simp: is_past_def word_less_nat_alt word_le_nat_alt unsigned_ucast_eq)

text \<open>In a sorted list the elements a downward closed test keeps are a suffix.\<close>

lemma sorted_dropWhile:
  fixes xs :: "'a :: linorder list"
  assumes "sorted xs" and "\<And>x y. x \<le> y \<Longrightarrow> P y \<Longrightarrow> P x"
  shows "dropWhile P xs = filter (\<lambda>x. \<not> P x) xs"
  using assms(1)
proof (induction xs)
  case Nil
  show ?case by simp
next
  case (Cons x xs)
  then show ?case using assms(2) by (auto simp: filter_id_conv intro!: sym [OF filter_True])
qed

lemma sorted_hd_dropWhile:
  fixes xs :: "'a :: linorder list"
  assumes "sorted xs" and "\<And>x y. x \<le> y \<Longrightarrow> P y \<Longrightarrow> P x" and "dropWhile P xs \<noteq> []"
  shows "hd (dropWhile P xs) = Min {x \<in> set xs. \<not> P x}"
proof -
  let ?d = "dropWhile P xs"
  have d: "?d = filter (\<lambda>x. \<not> P x) xs" by (rule sorted_dropWhile [OF assms(1,2)])
  then have set: "set ?d = {x \<in> set xs. \<not> P x}" by auto
  have "sorted ?d" using assms(1) d sorted_filter [of "\<lambda>x. x" xs] by simp
  with assms(3) have "Min (set ?d) = hd ?d"
    by (cases ?d) (auto intro!: Min_eqI simp del: dropWhile_eq_Nil_conv)
  then show ?thesis by (simp only: set)
qed

section \<open>Adding passes\<close>

text \<open>A loop that adds passes in order and stops at the first refusal.\<close>

fun add_passes ::
    "(u32 \<Rightarrow> u16 \<Rightarrow> ('s, int) state) \<Rightarrow> sat_pass list \<Rightarrow> ('s, unit) state" where
  "add_passes add [] = ret ()"
| "add_passes add (p # ps) = do {
     resp \<leftarrow> add (sp_timestamp p) (sp_duration p);
     if resp \<noteq> 0 then ret () else add_passes add ps
   }"

text \<open>Several requests, one after the other.\<close>

fun add_batches ::
    "(u32 \<Rightarrow> u16 \<Rightarrow> ('s, int) state) \<Rightarrow> sat_pass list list \<Rightarrow> ('s, unit) state" where
  "add_batches add [] = ret ()"
| "add_batches add (ps # pss) = do { add_passes add ps; add_batches add pss }"

locale pass_queue =
  fixes queue :: "'s \<Rightarrow> sat_pass list"
    and room :: "'s \<Rightarrow> nat"
    and inv :: "'s \<Rightarrow> bool"
    and add :: "u32 \<Rightarrow> u16 \<Rightarrow> ('s, int) state"
  assumes add_result: "inv s \<Longrightarrow> result (add t d) s = (if room s = 0 then - ENOSPC else 0)"
    and add_full: "inv s \<Longrightarrow> room s = 0 \<Longrightarrow> exec (add t d) s = s"
    and add_queue: "inv s \<Longrightarrow> 0 < room s \<Longrightarrow>
      queue (exec (add t d) s) = queue s @ [\<lparr>sp_timestamp = t, sp_duration = d\<rparr>]"
    and add_room: "inv s \<Longrightarrow> room (exec (add t d) s) = room s - 1"
    and add_inv: "inv s \<Longrightarrow> inv (exec (add t d) s)"
begin

lemma add_passes_inv: "inv s \<Longrightarrow> inv (exec (add_passes add ps) s)"
proof (induction ps arbitrary: s)
  case Nil
  then show ?case by simp
next
  case (Cons p ps)
  obtain r s' where step: "run_state (add (sp_timestamp p) (sp_duration p)) s = (r, s')"
    by fastforce
  with Cons.prems have "inv s'" using add_inv by (metis snd_conv)
  with step Cons.IH show ?case by simp
qed

lemma add_passes_queue:
  "inv s \<Longrightarrow> queue (exec (add_passes add ps) s) = queue s @ take (room s) ps"
proof (induction ps arbitrary: s)
  case Nil
  then show ?case by simp
next
  case (Cons p ps)
  obtain r s' where step: "run_state (add (sp_timestamp p) (sp_duration p)) s = (r, s')"
    by fastforce
  have r: "r = (if room s = 0 then - ENOSPC else 0)"
    using add_result [OF Cons.prems] step by (metis fst_conv)
  show ?case
  proof (cases "room s")
    case 0
    with add_full [OF Cons.prems] step have "s' = s" by (metis snd_conv)
    with 0 step r show ?thesis by (simp add: ENOSPC_def)
  next
    case (Suc n)
    have "inv s'" "room s' = n" "queue s' = queue s @ [p]"
      using add_inv [OF Cons.prems] add_room [OF Cons.prems] add_queue [OF Cons.prems]
        step Suc by (metis snd_conv diff_Suc_1 zero_less_Suc sat_pass.surjective old.unit.exhaust)+
    with Cons.IH [of s'] step r Suc show ?thesis by simp
  qed
qed

lemma add_passes_room: "inv s \<Longrightarrow> room (exec (add_passes add ps) s) = room s - length ps"
proof (induction ps arbitrary: s)
  case Nil
  then show ?case by simp
next
  case (Cons p ps)
  obtain r s' where step: "run_state (add (sp_timestamp p) (sp_duration p)) s = (r, s')"
    by fastforce
  have r: "r = (if room s = 0 then - ENOSPC else 0)"
    using add_result [OF Cons.prems] step by (metis fst_conv)
  have s': "inv s'" "room s' = room s - 1"
    using add_inv [OF Cons.prems] add_room [OF Cons.prems] step by (metis snd_conv)+
  with Cons.IH [of s'] step r show ?case by (simp add: ENOSPC_def)
qed

text \<open>They are as good as one.\<close>

lemma add_batches_queue:
  "inv s \<Longrightarrow> queue (exec (add_batches add pss) s) = queue s @ take (room s) (concat pss) \<and>
   inv (exec (add_batches add pss) s)"
proof (induction pss arbitrary: s)
  case Nil
  then show ?case by simp
next
  case (Cons ps pss)
  let ?s = "exec (add_passes add ps) s"
  have "exec (add_batches add (ps # pss)) s = exec (add_batches add pss) ?s"
    by (simp split: prod.splits)
  with Cons.IH [of ?s] Cons.prems show ?case
    by (simp add: add_passes_queue add_passes_room add_passes_inv)
qed

end

section \<open>Scheduling the next pass\<close>

text \<open>
  \<open>now_of s\<close> is the time in seconds that a call of \<open>schedule\<close> in state \<open>s\<close> reads.
\<close>

locale pass_schedule = pass_queue +
  fixes now_of :: "'s \<Rightarrow> u64"
    and schedule :: "('s, int option) state"
    and peek :: "u16 \<Rightarrow> ('s, int \<times> u32 list) state"
  assumes schedule_queue: "inv s \<Longrightarrow>
      queue (exec schedule s) = dropWhile (is_past (now_of s)) (queue s)"
    and schedule_result: "inv s \<Longrightarrow>
      result schedule s = Some (if queue (exec schedule s) = [] then - 1 else 0)"
    and schedule_inv: "inv s \<Longrightarrow> inv (exec schedule s)"
    and peek_result: "inv s \<Longrightarrow> result (peek n) s =
      (int (min (unat n) (length (queue s))), map sp_timestamp (take (unat n) (queue s)))"
begin

lemma scheduled_is_future:
  assumes "inv s" and "result schedule s = Some 0"
  shows "queue (exec schedule s) \<noteq> []"
    and "\<not> is_past (now_of s) (hd (queue (exec schedule s)))"
proof -
  show ne: "queue (exec schedule s) \<noteq> []"
    using schedule_result [OF assms(1)] assms(2) by (auto split: if_splits)
  with schedule_queue [OF assms(1)] show "\<not> is_past (now_of s) (hd (queue (exec schedule s)))"
    by (metis hd_dropWhile)
qed

lemma schedule_fails_iff:
  "inv s \<Longrightarrow> result schedule s = Some (- 1) \<longleftrightarrow> (\<forall>p \<in> set (queue s). is_past (now_of s) p)"
  by (simp add: schedule_result schedule_queue)

text \<open>On a table in time order the scheduled pass is the earliest of the future ones.\<close>

lemma scheduled_is_earliest:
  assumes "inv s" and "result schedule s = Some 0"
    and "sorted (map (unat \<circ> sp_timestamp) (queue s))"
    and "p \<in> set (queue s)" and "\<not> is_past (now_of s) p"
  shows "sp_timestamp (hd (queue (exec schedule s))) \<le> sp_timestamp p"
proof -
  let ?q = "queue s" and ?d = "dropWhile (is_past (now_of s)) (queue s)"
  have ne: "?d \<noteq> []"
    using scheduled_is_future [OF assms(1,2)] schedule_queue [OF assms(1)] by simp
  have "p \<in> set ?d"
    using assms(4,5) by (metis Un_iff set_append set_takeWhileD takeWhile_dropWhile_id)
  moreover have "sorted (map (unat \<circ> sp_timestamp) ?d)"
    using assms(3) by (metis takeWhile_dropWhile_id map_append sorted_append)
  ultimately have "unat (sp_timestamp (hd ?d)) \<le> unat (sp_timestamp p)"
    using ne by (cases ?d) auto
  then show ?thesis
    by (simp add: schedule_queue [OF assms(1)] word_le_nat_alt)
qed

text \<open>In the order of passes it is the least of them.\<close>

lemma scheduled_is_least:
  assumes "inv s" and "result schedule s = Some 0" and "sorted (queue s)"
  shows "hd (queue (exec schedule s)) = Min {p \<in> set (queue s). \<not> is_past (now_of s) p}"
  using sorted_hd_dropWhile [OF assms(3), of "is_past (now_of s)"] is_past_down
    scheduled_is_future(1) [OF assms(1,2)] by (simp add: schedule_queue [OF assms(1)])

text \<open>What the shell prints after a successful schedule starts with the armed pass.\<close>

lemma peek_after_schedule:
  assumes "inv s" and "result schedule s = Some 0" and "0 < unat n"
  shows "hd (snd (result (peek n) (exec schedule s))) =
         sp_timestamp (hd (queue (exec schedule s)))"
  using scheduled_is_future(1) [OF assms(1,2)] assms(3)
    peek_result [OF schedule_inv [OF assms(1)], of n]
  by (cases "queue (exec schedule s)"; cases "unat n") auto

end

end
