(* ===== verification/Sat_Schedule.thy ===== *)
theory Sat_Schedule
  imports Pass_Queue
begin

text \<open>
  \<^verbatim>\<open>app/src/sat_board.c\<close>, the schedule of satellite windows: the table of passes
  (builds without \<^verbatim>\<open>CONFIG_APP_USE_PASS_PREDICTION\<close>) or the SDK's pass prediction,
  the search for the next window and the timer that is armed for it. The table is
  shown to refine a queue of pending passes.
\<close>

section \<open>Operations\<close>

definition sat_pass_add :: "env \<Rightarrow> u32 \<Rightarrow> u16 \<Rightarrow> ('a sat_state_scheme, int) state" where
  "sat_pass_add e timestamp duration =
     (if cfg_pass_prediction e then ret 0
      else do {
        count \<leftarrow> gets g_sat_passes_count;
        if unat count \<ge> HUBBLE_NUMBER_OF_TIMESTAMPS then ret (- ENOSPC)
        else do {
          table \<leftarrow> gets g_sat_passes;
          guard_ok (unat count < length table);
          modify (\<lambda>s. s\<lparr>g_sat_passes := (g_sat_passes s)
            [unat count := \<lparr>sp_timestamp = timestamp, sp_duration = duration\<rparr>]\<rparr>);
          modify (\<lambda>s. s\<lparr>g_sat_passes_count := g_sat_passes_count s + 1\<rparr>);
          ret 0
        }
      })"

lemma unat_inc: "idx < count \<Longrightarrow> unat (idx + 1 :: u16) = Suc (unat idx)"
proof -
  assume "idx < count"
  then have "unat idx < 2 ^ 16 - 1"
    using unat_bound [of count] by (simp add: word_less_nat_alt)
  then show ?thesis by (simp add: unat_word_ariths)
qed

text \<open>
  The \<^verbatim>\<open>while\<close> loop over the table: the index it leaves, and whether it stopped at
  a future pass (otherwise the function returned from inside the loop).
\<close>

function skip_past :: "sat_pass list \<Rightarrow> u16 \<Rightarrow> u64 \<Rightarrow> u16 \<Rightarrow> u16 \<times> bool" where
  "skip_past passes count now_s idx =
     (if ucast (sp_timestamp (passes ! unat idx)) < now_s + 1 then
        (let idx = idx + 1 in
         if idx \<ge> count then (idx, False) else skip_past passes count now_s idx)
      else (idx, True))"
  by pat_completeness auto
termination
proof (relation "measure (\<lambda>(passes, count, now_s, idx).
    if idx < count then unat count - unat idx else Suc (unat count))", goal_cases)
  case 1
  show ?case by simp
next
  case (2 passes count now_s idx idx')
  with unat_inc [of idx count] show ?case
    by (auto simp: not_le word_less_nat_alt)
qed

declare skip_past.simps [simp del]

text \<open>
  The \<^verbatim>\<open>do .. while\<close> loop of the pass-prediction build, with fuel: \<open>None\<close> is a loop
  that has not ended, \<open>Some (-1)\<close> the early return, \<open>Some 0\<close> the loop's end.
\<close>

fun next_pass_loop :: "env \<Rightarrow> nat \<Rightarrow> u64 \<Rightarrow> u64 \<Rightarrow> ('a sat_state_scheme, int option) state" where
  "next_pass_loop e 0 now_ms t = ret None"
| "next_pass_loop e (Suc fuel) now_ms t = do {
     pos \<leftarrow> gets g_device_pos;
     (r, pass) \<leftarrow> ask (o_next_pass e) (Next_pass_get t pos);
     (case pass of None \<Rightarrow> ret () | Some p \<Rightarrow> modify (\<lambda>s. s\<lparr>g_next_pass := p\<rparr>));
     if r \<noteq> 0 then ret (Some (- 1))
     else do {
       p \<leftarrow> gets g_next_pass;
       if pass_start p \<le> now_ms
       then next_pass_loop e fuel now_ms (pass_start p + pass_duration p)
       else ret (Some 0)
     }
   }"

definition MSEC_PER_SEC :: u64 where "MSEC_PER_SEC = 1000"

definition arm_sat_timer :: "u32 \<Rightarrow> ('a world_scheme, unit) state" where
  "arm_sat_timer timeout = tell (Timer_start Sat_timer (unat timeout) 0)"

definition sat_schedule_next_transmission ::
    "env \<Rightarrow> nat \<Rightarrow> ('a sat_state_scheme, int option) state" where
  "sat_schedule_next_transmission e fuel = do {
     now_ms \<leftarrow> ask (o_time_get e) Hubble_time_get;
     if cfg_pass_prediction e then do {
       r \<leftarrow> next_pass_loop e fuel now_ms now_ms;
       if r \<noteq> Some 0 then ret r
       else do {
         p \<leftarrow> gets g_next_pass;
         arm_sat_timer (ucast ((pass_start p - now_ms) div MSEC_PER_SEC));
         ret (Some 0)
       }
     }
     else do {
       idx \<leftarrow> gets g_sat_passes_idx;
       count \<leftarrow> gets g_sat_passes_count;
       if idx \<ge> count then ret (Some (- 1))
       else do {
         table \<leftarrow> gets g_sat_passes;
         guard_ok (unat count \<le> length table);
         let (idx, found) = skip_past table count (now_ms div MSEC_PER_SEC) idx;
         modify (\<lambda>s. s\<lparr>g_sat_passes_idx := idx\<rparr>);
         if \<not> found then ret (Some (- 1))
         else do {
           arm_sat_timer (ucast (ucast (sp_timestamp (table ! unat idx))
                                 - now_ms div MSEC_PER_SEC));
           ret (Some 0)
         }
       }
     }
   }"

definition timer_cb :: "('a world_scheme, unit) state" where
  "timer_cb = tell (Sem_give Timer_sem)"

definition sat_transmission_time_get :: "('a sat_state_scheme, int) state" where
  "sat_transmission_time_get = do {
     idx \<leftarrow> gets g_sat_passes_idx;
     count \<leftarrow> gets g_sat_passes_count;
     if idx \<ge> count then ret (- 1)
     else do {
       table \<leftarrow> gets g_sat_passes;
       guard_ok (unat idx < length table);
       ret (uint (sp_duration (table ! unat idx)))
     }
   }"

text \<open>The number of timestamps (or \<open>-1\<close>) and the timestamps written to the buffer.\<close>

definition sat_next_transmission_get ::
    "env \<Rightarrow> u16 \<Rightarrow> ('a sat_state_scheme, int \<times> u32 list) state" where
  "sat_next_transmission_get e len =
     (if cfg_pass_prediction e then do {
        p \<leftarrow> gets g_next_pass;
        if pass_start p = 0 then ret (- 1, [])
        else ret (1, [ucast (pass_start p div MSEC_PER_SEC)])
      }
      else do {
        idx \<leftarrow> gets g_sat_passes_idx;
        count \<leftarrow> gets g_sat_passes_count;
        table \<leftarrow> gets g_sat_passes;
        let number_elements = (word_of_int (min (uint len) (uint count - uint idx)) :: u16);
        guard_ok (unat idx + unat number_elements \<le> length table);
        ret (uint number_elements,
             map (\<lambda>i. sp_timestamp (table ! (unat idx + i))) [0..<unat number_elements])
      })"

section \<open>The table as a queue of pending passes\<close>

text \<open>
  \<open>pending\<close> is what the table still holds for the future: the entries from the
  current index to the count. (\<open>is_past\<close> is the test of the \<^verbatim>\<open>while\<close> loop.)
\<close>

definition table_inv :: "'a sat_state_scheme \<Rightarrow> bool" where
  "table_inv s \<longleftrightarrow> length (g_sat_passes s) = HUBBLE_NUMBER_OF_TIMESTAMPS \<and>
     unat (g_sat_passes_count s) \<le> HUBBLE_NUMBER_OF_TIMESTAMPS \<and>
     g_sat_passes_idx s \<le> g_sat_passes_count s"

definition pending :: "'a sat_state_scheme \<Rightarrow> sat_pass list" where
  "pending s = drop (unat (g_sat_passes_idx s))
     (take (unat (g_sat_passes_count s)) (g_sat_passes s))"

lemma skip_past_spec:
  assumes "idx < count" and "unat count \<le> length ps"
    and "skip_past ps count now_s idx = (idx', found)"
  shows "idx \<le> idx'" and "idx' \<le> count" and "found \<longleftrightarrow> idx' < count"
    and "drop (unat idx') (take (unat count) ps) =
         dropWhile (is_past now_s) (drop (unat idx) (take (unat count) ps))"
proof -
  let ?rest = "\<lambda>i. drop (unat i) (take (unat count) ps)"
  have "idx \<le> idx' \<and> idx' \<le> count \<and> (found \<longleftrightarrow> idx' < count) \<and>
      ?rest idx' = dropWhile (is_past now_s) (?rest idx)"
    using assms
  proof (induction ps count now_s idx arbitrary: idx' found rule: skip_past.induct)
    case (1 ps count now_s idx)
    have i: "unat idx < unat count" using "1.prems"(1) by (simp add: word_less_nat_alt)
    have cons: "drop (unat idx) (take (unat count) ps) =
        ps ! unat idx # drop (Suc (unat idx)) (take (unat count) ps)"
      using i "1.prems"(2) by (simp add: Cons_nth_drop_Suc [symmetric])
    note inc = unat_inc [OF "1.prems"(1)]
    show ?case
    proof (cases "is_past now_s (ps ! unat idx)")
      case False
      with "1.prems" cons show ?thesis
        by (auto simp: skip_past.simps [of ps count now_s idx] is_past_def)
    next
      case past: True
      show ?thesis
      proof (cases "idx + 1 \<ge> count")
        case True
        with "1.prems" past have "idx' = idx + 1" "\<not> found"
          by (auto simp: skip_past.simps [of ps count now_s idx] is_past_def)
        with True i inc past cons show ?thesis
          by (auto simp: word_le_nat_alt word_less_nat_alt)
      next
        case False
        with "1.prems" past have rec: "skip_past ps count now_s (idx + 1) = (idx', found)"
          by (simp add: skip_past.simps [of ps count now_s idx] is_past_def)
        have test: "ucast (sp_timestamp (ps ! unat idx)) < now_s + 1" and more: "idx + 1 < count"
          using past False by (simp_all add: is_past_def)
        note "1.IH" [OF test refl False more "1.prems"(2) rec]
        with past cons inc show ?thesis by (auto simp: word_le_nat_alt)
      qed
    qed
  qed
  then show "idx \<le> idx'" and "idx' \<le> count" and "found \<longleftrightarrow> idx' < count"
    and "?rest idx' = dropWhile (is_past now_s) (?rest idx)" by auto
qed

section \<open>The table implements the interface\<close>

text \<open>
  The interface's predicate also says which build is meant, so that the laws hold
  for every platform \<open>e\<close>.
\<close>

definition queue_ok :: "env \<Rightarrow> 'a sat_state_scheme \<Rightarrow> bool" where
  "queue_ok e s \<longleftrightarrow> \<not> cfg_pass_prediction e \<and> table_inv s"

definition queue_room :: "'a sat_state_scheme \<Rightarrow> nat" where
  "queue_room s = HUBBLE_NUMBER_OF_TIMESTAMPS - unat (g_sat_passes_count s)"

definition schedule_now :: "env \<Rightarrow> 'a sat_state_scheme \<Rightarrow> u64" where
  "schedule_now e s = o_time_get e (calls s @ [Hubble_time_get]) div MSEC_PER_SEC"

lemma take_update_snoc:
  "n < length xs \<Longrightarrow> take (Suc n) (xs[n := x]) = take n xs @ [x]"
  by (simp add: take_Suc_conv_app_nth)

lemma sat_pass_add_full:
  "queue_ok e s \<Longrightarrow> queue_room s = 0 \<Longrightarrow> run_state (sat_pass_add e t d) s = (- ENOSPC, s)"
  by (simp add: sat_pass_add_def queue_ok_def queue_room_def table_inv_def)

lemma sat_pass_add_room:
  assumes "queue_ok e s" and "0 < queue_room s"
  shows "run_state (sat_pass_add e t d) s =
     (0, s\<lparr>g_sat_passes := (g_sat_passes s)
            [unat (g_sat_passes_count s) := \<lparr>sp_timestamp = t, sp_duration = d\<rparr>],
           g_sat_passes_count := g_sat_passes_count s + 1\<rparr>)"
    and "unat (g_sat_passes_count s + 1) = Suc (unat (g_sat_passes_count s))"
  using assms
  by (auto simp: sat_pass_add_def queue_ok_def queue_room_def table_inv_def
      HUBBLE_NUMBER_OF_TIMESTAMPS_def unat_word_ariths)

lemma sat_schedule_table:
  assumes "queue_ok e s"
  shows "result (sat_schedule_next_transmission e fuel) s =
      Some (if pending (exec (sat_schedule_next_transmission e fuel) s) = [] then - 1 else 0)"
    and "pending (exec (sat_schedule_next_transmission e fuel) s) =
      dropWhile (is_past (schedule_now e s)) (pending s)"
    and "queue_ok e (exec (sat_schedule_next_transmission e fuel) s)"
proof -
  let ?m = "sat_schedule_next_transmission e fuel"
  let ?i = "g_sat_passes_idx s" and ?c = "g_sat_passes_count s" and ?t = "g_sat_passes s"
  have inv: "\<not> cfg_pass_prediction e" "length ?t = HUBBLE_NUMBER_OF_TIMESTAMPS"
      "unat ?c \<le> HUBBLE_NUMBER_OF_TIMESTAMPS" "?i \<le> ?c"
    using assms by (auto simp: queue_ok_def table_inv_def)
  have "result ?m s = Some (if pending (exec ?m s) = [] then - 1 else 0) \<and>
      pending (exec ?m s) = dropWhile (is_past (schedule_now e s)) (pending s) \<and>
      queue_ok e (exec ?m s)"
  proof (cases "?i \<ge> ?c")
    case True
    with inv have "?i = ?c" by simp
    with inv show ?thesis
      by (simp add: sat_schedule_next_transmission_def pending_def queue_ok_def table_inv_def)
  next
    case False
    obtain i f where sk: "skip_past ?t ?c (schedule_now e s) ?i = (i, f)"
      by fastforce
    have "?i < ?c" "unat ?c \<le> length ?t" using False inv by auto
    note sp = skip_past_spec [OF this sk]
    have empty: "drop (unat i) (take (unat ?c) ?t) = [] \<longleftrightarrow> \<not> f"
      using sp(2,3) inv by (simp add: word_le_nat_alt word_less_nat_alt not_less)
    have "g_sat_passes_idx (exec ?m s) = i" "g_sat_passes_count (exec ?m s) = ?c"
      "g_sat_passes (exec ?m s) = ?t" "result ?m s = Some (if f then 0 else - 1)"
      using inv False sk
      by (simp_all add: sat_schedule_next_transmission_def schedule_now_def arm_sat_timer_def)
    with inv sp(2,4) empty show ?thesis
      by (simp add: pending_def queue_ok_def table_inv_def)
  qed
  then show "result ?m s = Some (if pending (exec ?m s) = [] then - 1 else 0)"
    and "pending (exec ?m s) = dropWhile (is_past (schedule_now e s)) (pending s)"
    and "queue_ok e (exec ?m s)" by auto
qed

lemma sat_next_transmission_table:
  assumes "queue_ok e s"
  shows "run_state (sat_next_transmission_get e n) s =
     ((int (min (unat n) (length (pending s))), map sp_timestamp (take (unat n) (pending s))), s)"
proof -
  let ?i = "g_sat_passes_idx s" and ?c = "g_sat_passes_count s" and ?t = "g_sat_passes s"
  have inv: "\<not> cfg_pass_prediction e" "length ?t = HUBBLE_NUMBER_OF_TIMESTAMPS"
      "unat ?c \<le> HUBBLE_NUMBER_OF_TIMESTAMPS" "unat ?i \<le> unat ?c"
    using assms by (auto simp: queue_ok_def table_inv_def word_le_nat_alt)
  define k where "k = min (unat n) (unat ?c - unat ?i)"
  have len: "length (pending s) = unat ?c - unat ?i"
    using inv by (simp add: pending_def)
  have "int k = min (uint n) (uint ?c - uint ?i)"
    using inv(4) by (simp add: k_def of_nat_diff of_nat_min)
  moreover have "k < 65536"
    using unat_bound [of n] by (simp add: k_def)
  ultimately have u: "unat (word_of_int (min (uint n) (uint ?c - uint ?i)) :: u16) = k"
    by (simp add: unat_of_nat flip: \<open>int k = _\<close>)
  define w :: u16 where "w = word_of_int (min (uint n) (uint ?c - uint ?i))"
  have wk: "unat w = k" using u by (simp only: w_def)
  have lst: "map (\<lambda>j. sp_timestamp (?t ! (unat ?i + j))) [0..<k] =
      map sp_timestamp (take (unat n) (pending s))"
    using inv by (intro nth_equalityI) (auto simp: k_def len pending_def)
  have ok: "unat ?i + k \<le> length ?t" using inv by (simp add: k_def)
  have "run_state (sat_next_transmission_get e n) s =
     ((uint w, map (\<lambda>j. sp_timestamp (?t ! (unat ?i + j))) [0..<unat w]), s)"
    using inv(1) ok wk
    by (simp add: sat_next_transmission_get_def w_def [symmetric] del: of_int_min)
  then show ?thesis
    using wk lst len by (simp only: uint_nat k_def)
qed

lemma table_inv_add:
  assumes "queue_ok e s"
  shows "queue_ok e (exec (sat_pass_add e t d) s)"
proof (cases "queue_room s = 0")
  case True
  with assms show ?thesis by (simp add: sat_pass_add_full)
next
  case False
  with assms sat_pass_add_room(1) [of e s t d] sat_pass_add_room(2) [of e s] show ?thesis
    by (simp add: queue_ok_def table_inv_def queue_room_def word_le_nat_alt)
qed

lemma pending_add:
  assumes "queue_ok e s" and "0 < queue_room s"
  shows "pending (exec (sat_pass_add e t d) s) =
     pending s @ [\<lparr>sp_timestamp = t, sp_duration = d\<rparr>]"
  using sat_pass_add_room(1) [of e s t d] sat_pass_add_room(2) [of e s] assms
  by (simp add: pending_def queue_ok_def table_inv_def queue_room_def take_update_snoc
      word_le_nat_alt)

lemma room_add:
  assumes "queue_ok e s"
  shows "queue_room (exec (sat_pass_add e t d) s) = queue_room s - 1"
proof (cases "queue_room s = 0")
  case True
  with assms show ?thesis by (simp add: sat_pass_add_full)
next
  case False
  with sat_pass_add_room(1) [of e s t d] sat_pass_add_room(2) [of e s] assms show ?thesis
    by (simp add: queue_room_def)
qed

interpretation pass_table: pass_schedule pending queue_room "queue_ok e" "sat_pass_add e"
    "schedule_now e" "sat_schedule_next_transmission e fuel" "sat_next_transmission_get e"
  for e :: env and fuel :: nat
proof unfold_locales
  fix s :: "'a sat_state_scheme" and t d
  assume ok: "queue_ok e s"
  show "result (sat_pass_add e t d) s = (if queue_room s = 0 then - ENOSPC else 0)"
    using ok by (simp add: sat_pass_add_full sat_pass_add_room)
  show "queue_room s = 0 \<Longrightarrow> exec (sat_pass_add e t d) s = s"
    using ok by (simp add: sat_pass_add_full)
  show "0 < queue_room s \<Longrightarrow> pending (exec (sat_pass_add e t d) s) =
      pending s @ [\<lparr>sp_timestamp = t, sp_duration = d\<rparr>]"
    by (rule pending_add [OF ok])
qed (simp_all add: room_add table_inv_add sat_schedule_table sat_next_transmission_table)

section \<open>The pass-prediction loop\<close>

text \<open>
  What the SDK documents of \<^verbatim>\<open>hubble_sat_next_pass_get(t, ..)\<close>: on success it stores
  a pass that ends after \<open>t\<close>, on the 64-bit millisecond clock, and no pass is longer
  than some \<open>D\<close> milliseconds.
\<close>

definition sdk_passes_ok :: "env \<Rightarrow> nat \<Rightarrow> bool" where
  "sdk_passes_ok e D \<longleftrightarrow> (\<forall>tr t pos p. o_next_pass e (tr @ [Next_pass_get t pos]) = (0, p) \<longrightarrow>
     (\<exists>q. p = Some q \<and> unat t < unat (pass_start q) + unat (pass_duration q) \<and>
        unat (pass_start q) + unat (pass_duration q) < 2 ^ 64 \<and> unat (pass_duration q) \<le> D))"

lemma next_pass_loop_future:
  "result (next_pass_loop e fuel now t) s = Some 0 \<Longrightarrow>
   now < pass_start (g_next_pass (exec (next_pass_loop e fuel now t) s))"
proof (induction fuel arbitrary: t s)
  case 0
  then show ?case by simp
next
  case (Suc fuel)
  then show ?case
    by (auto simp: not_le split: prod.splits option.splits if_splits)
qed

lemma next_pass_loop_ends:
  assumes "sdk_passes_ok e D"
  shows "unat t \<le> unat now + D \<Longrightarrow> unat now + D - unat t < fuel \<Longrightarrow>
    \<exists>r. result (next_pass_loop e fuel now t) s = Some r"
proof (induction fuel arbitrary: t s)
  case 0
  then show ?case by simp
next
  case (Suc fuel)
  obtain r p where q: "o_next_pass e (calls s @ [Next_pass_get t (g_device_pos s)]) = (r, p)"
    by fastforce
  show ?case
  proof (cases "r = 0")
    case False
    with q show ?thesis by (auto split: option.splits)
  next
    case True
    with q assms obtain np where np: "p = Some np"
        "unat t < unat (pass_start np) + unat (pass_duration np)"
        "unat (pass_start np) + unat (pass_duration np) < 2 ^ 64" "unat (pass_duration np) \<le> D"
      unfolding sdk_passes_ok_def by blast
    have e: "unat (pass_start np + pass_duration np) = unat (pass_start np) + unat (pass_duration np)"
      using np(3) by (simp add: unat_word_ariths)
    show ?thesis
    proof (cases "pass_start np \<le> now")
      case False
      with q True np(1) show ?thesis by simp
    next
      case le: True
      let ?s = "s\<lparr>calls := calls s @ [Next_pass_get t (g_device_pos s)], g_next_pass := np\<rparr>"
      have "unat (pass_start np + pass_duration np) \<le> unat now + D"
        "unat now + D - unat (pass_start np + pass_duration np) < fuel"
        using e np(2,4) le Suc.prems by (simp_all add: word_le_nat_alt)
      from Suc.IH [OF this, of ?s] q True np(1) le show ?thesis by simp
    qed
  qed
qed

lemma emits_next_pass_loop [emits_intros]:
  "(\<And>t pos. A (Next_pass_get t pos)) \<Longrightarrow> emits A (next_pass_loop e fuel now t)"
proof (induction fuel arbitrary: t)
  case 0
  show ?case by (simp add: emits_return)
next
  case (Suc fuel)
  then show ?case by (auto intro!: emits_intros emits_modify)
qed

lemma next_pass_loop_minus1:
  "result (next_pass_loop e fuel now t) s = Some r \<Longrightarrow> r = 0 \<or> r = - 1"
proof (induction fuel arbitrary: t s)
  case 0
  then show ?case by simp
next
  case (Suc fuel)
  then show ?case by (auto split: prod.splits option.splits if_splits)
qed

section \<open>The timer\<close>

lemma sat_schedule_prediction_some:
  assumes "cfg_pass_prediction e" and "result (sat_schedule_next_transmission e fuel) s = Some 0"
  defines "now \<equiv> o_time_get e (calls s @ [Hubble_time_get])"
    and "s' \<equiv> exec (sat_schedule_next_transmission e fuel) s"
  shows "now < pass_start (g_next_pass s')"
    and "\<exists>cs. calls s' = calls s @ cs @
      [Timer_start Sat_timer ((unat (pass_start (g_next_pass s')) - unat now) div 1000 mod 2 ^ 32) 0]"
proof -
  let ?s1 = "s\<lparr>calls := calls s @ [Hubble_time_get]\<rparr>"
  let ?l = "next_pass_loop e fuel now now"
  have r: "result ?l ?s1 = Some 0"
    using assms(1,2) by (auto simp: sat_schedule_next_transmission_def now_def
        split: prod.splits if_splits)
  have s': "s' = (exec ?l ?s1)\<lparr>calls := calls (exec ?l ?s1) @
      [Timer_start Sat_timer (unat (ucast ((pass_start (g_next_pass (exec ?l ?s1)) - now)
         div MSEC_PER_SEC) :: u32)) 0]\<rparr>"
    using assms(1) r by (auto simp: s'_def sat_schedule_next_transmission_def now_def
        arm_sat_timer_def split: prod.splits)
  from next_pass_loop_future [OF r] show fut: "now < pass_start (g_next_pass s')"
    by (simp add: s')
  have "emits (\<lambda>_. True) ?l"
    by (rule emits_next_pass_loop) simp
  then obtain cs where cs: "calls (exec ?l ?s1) = calls ?s1 @ cs" by (rule emitsE)
  let ?T = "(unat (pass_start (g_next_pass s')) - unat now) div 1000 mod 2 ^ 32"
  have T: "unat (ucast ((pass_start (g_next_pass (exec ?l ?s1)) - now) div MSEC_PER_SEC) :: u32) = ?T"
    using fut by (simp add: s' MSEC_PER_SEC_def unsigned_ucast_eq take_bit_eq_mod
        unat_div unat_sub_if_size word_less_nat_alt)
  have "calls s' = calls ?s1 @ cs @ [Timer_start Sat_timer ?T 0]"
    using arg_cong [OF s', of calls] cs by (simp only: T) simp
  then have "calls s' = calls s @ (Hubble_time_get # cs) @ [Timer_start Sat_timer ?T 0]"
    by simp
  then show "\<exists>cs. calls s' = calls s @ cs @ [Timer_start Sat_timer ?T 0]" by blast
qed

lemma sat_schedule_table_timer:
  assumes "queue_ok e s" and "result (sat_schedule_next_transmission e fuel) s = Some 0"
  defines "s' \<equiv> exec (sat_schedule_next_transmission e fuel) s"
  shows "calls s' = calls s @ [Hubble_time_get, Timer_start Sat_timer
      (unat (sp_timestamp (hd (pending s'))) - unat (schedule_now e s)) 0]"
    and "unat (schedule_now e s) < unat (sp_timestamp (hd (pending s')))"
proof -
  let ?i = "g_sat_passes_idx s" and ?c = "g_sat_passes_count s" and ?t = "g_sat_passes s"
  have inv: "\<not> cfg_pass_prediction e" "unat ?c \<le> length ?t"
    using assms(1) by (auto simp: queue_ok_def table_inv_def)
  have lt: "?i < ?c"
    using assms(2) inv by (auto simp: sat_schedule_next_transmission_def split: if_splits)
  then have nle: "\<not> ?c \<le> ?i" by simp
  obtain i f where sk: "skip_past ?t ?c (schedule_now e s) ?i = (i, f)" by fastforce
  have f: f
    using assms(2) inv nle sk
    by (auto simp: sat_schedule_next_transmission_def schedule_now_def split: if_splits)
  note sp = skip_past_spec [OF lt inv(2) sk]
  let ?p = "?t ! unat i"
  have run: "g_sat_passes_idx s' = i" "g_sat_passes_count s' = ?c" "g_sat_passes s' = ?t"
    "calls s' = calls s @ [Hubble_time_get, Timer_start Sat_timer
      (unat (ucast (ucast (sp_timestamp ?p) - schedule_now e s) :: u32)) 0]"
    using inv nle sk f by (simp_all add: s'_def sat_schedule_next_transmission_def
        schedule_now_def arm_sat_timer_def)
  have hd: "hd (pending s') = ?p"
    using f sp(3) inv(2) run
    by (simp add: pending_def hd_drop_conv_nth word_less_nat_alt)
  have "\<not> is_past (schedule_now e s) (hd (pending s'))"
    by (rule pass_table.scheduled_is_future(2) [OF assms(1,2), folded s'_def])
  moreover have "unat (schedule_now e s) < 2 ^ 64 - 1"
    unfolding schedule_now_def MSEC_PER_SEC_def
    using unat_bound [of "o_time_get e (calls s @ [Hubble_time_get])"]
    by (simp add: unat_div)
  ultimately show fut: "unat (schedule_now e s) < unat (sp_timestamp (hd (pending s')))"
    by (simp add: is_past_iff)
  have "unat (ucast (ucast (sp_timestamp ?p) - schedule_now e s) :: u32) =
      unat (sp_timestamp ?p) - unat (schedule_now e s)"
    using fut unat_bound [of "sp_timestamp ?p"]
    by (simp add: hd unsigned_ucast_eq take_bit_eq_mod unat_sub_if_size)
  with run(4) hd show "calls s' = calls s @ [Hubble_time_get, Timer_start Sat_timer
      (unat (sp_timestamp (hd (pending s'))) - unat (schedule_now e s)) 0]" by simp
qed

lemma schedule_failed_log:
  assumes "queue_ok e s" and "result (sat_schedule_next_transmission e fuel) s = Some (- 1)"
  shows "calls (exec (sat_schedule_next_transmission e fuel) s) = calls s @ [Hubble_time_get]"
  using assms
  by (auto simp: sat_schedule_next_transmission_def queue_ok_def split: prod.splits if_splits)

end
