(* ===== verification/Ble_Gatt.thy ===== *)
theory Ble_Gatt
  imports Ble Sat_Schedule
begin

unbundle bit_operations_syntax

text \<open>
  \<^verbatim>\<open>app/src/ble.c\<close>, \<^verbatim>\<open>_chr_write_cb\<close>: the commands a companion writes to the GATT
  characteristic. A read of the request outside its bytes sets the fault flag and
  yields whatever byte the platform has there. The companion's side of the protocol,
  \<^verbatim>\<open>scripts/companion.py\<close>, is the encoder of the round-trip lemmas.
\<close>

section \<open>Operations\<close>

definition SPBLE_PKT_CMD :: u8 where "SPBLE_PKT_CMD = 0x02"
definition SPBLE_CMD_SETUTC :: u8 where "SPBLE_CMD_SETUTC = 0x02"
definition SPBLE_CMD_SETEPHEMERIS :: u8 where "SPBLE_CMD_SETEPHEMERIS = 0x07"
definition SPBLE_CMD_SETLOCATION :: u8 where "SPBLE_CMD_SETLOCATION = 0x09"

lemmas spble_defs = SPBLE_PKT_CMD_def SPBLE_CMD_SETUTC_def SPBLE_CMD_SETEPHEMERIS_def
  SPBLE_CMD_SETLOCATION_def

definition read_byte :: "env \<Rightarrow> bytes \<Rightarrow> nat \<Rightarrow> ('a world_scheme, u8) state" where
  "read_byte e buf i =
     (if i < length buf then ret (buf ! i)
      else do {
        guard_ok False;
        gets (\<lambda>s. o_stray_byte e (calls s))
      })"

text \<open>
  The \<^verbatim>\<open>for\<close> loop over the ephemeris entries: \<open>n\<close> iterations are left, \<open>p\<close> are the
  bytes of the request from the pointer on, \<open>available\<close> is the loop's own count.
\<close>

fun ephemeris_loop :: "env \<Rightarrow> nat \<Rightarrow> bytes \<Rightarrow> nat \<Rightarrow> ('a sat_state_scheme, unit) state" where
  "ephemeris_loop e 0 p available = ret ()"
| "ephemeris_loop e (Suc n) p available =
     (if available < 6 then ret ()
      else do {
        guard_ok (6 \<le> length p);
        resp \<leftarrow> sat_pass_add e (le_word (take 4 p)) (le_word (take 2 (drop 4 p)));
        if resp \<noteq> 0 then ret ()
        else ephemeris_loop e n (drop 6 p) (available - 6)
      })"

definition set_utc_cmd :: "env \<Rightarrow> bytes \<Rightarrow> ('a ble_state_scheme, unit) state" where
  "set_utc_cmd e req = do {
     modify (\<lambda>s. s\<lparr>g_utc_time := le_word (take 8 (drop 2 req))\<rparr>);
     utc_time \<leftarrow> gets g_utc_time;
     tell (Hubble_time_set utc_time);
     up \<leftarrow> ask (o_uptime e) Uptime_get;
     modify (\<lambda>s. s\<lparr>g_utc_time := g_utc_time s - word_of_int up\<rparr>)
   }"

definition set_ephemeris_cmd :: "env \<Rightarrow> bytes \<Rightarrow> nat \<Rightarrow> ('a sat_state_scheme, unit) state" where
  "set_ephemeris_cmd e req len =
     (if \<not> cfg_pass_prediction e then
        (if len > 2 + 4
         then ephemeris_loop e (unat (le_word (take 4 (drop 2 req)) :: u32)) (drop 6 req) (len - 2 - 4)
         else ret ())
      else ret ())"

definition chr_write_cb :: "env \<Rightarrow> bytes \<Rightarrow> u8 \<Rightarrow> ('a ble_state_scheme, int) state" where
  "chr_write_cb e req flags = (
     let len = length req in
     if flags AND WRITE_FLAG_PREPARE e \<noteq> 0 then ret 0
     else do {
       b \<leftarrow> read_byte e req 0;
       if b = SPBLE_PKT_CMD then do {
         cmd \<leftarrow> read_byte e req 1;
         if cmd = SPBLE_CMD_SETUTC then
           (if len \<noteq> 10 then ret (ATT_ERR_LEN e)
            else do { set_utc_cmd e req; ret (int len) })
         else if cmd = SPBLE_CMD_SETEPHEMERIS then
           do { set_ephemeris_cmd e req len; ret (int len) }
         else if cmd = SPBLE_CMD_SETLOCATION then
           (if cfg_pass_prediction e then
              (if len \<noteq> 2 + 2 * 8 then ret (ATT_ERR_LEN e)
               else do {
                 device_location_set e (le_word (take 8 (drop 2 req)))
                   (le_word (take 8 (drop 10 req)));
                 ret (int len)
               })
            else ret (int len))
         else ret (int len)
       } else ret (int len)
     })"

section \<open>The companion's packets\<close>

definition encode_pass :: "sat_pass \<Rightarrow> bytes" where
  "encode_pass p = le_bytes 4 (unat (sp_timestamp p)) @ le_bytes 2 (unat (sp_duration p))"

definition encode_ephemeris :: "sat_pass list \<Rightarrow> bytes" where
  "encode_ephemeris ps = [SPBLE_PKT_CMD, SPBLE_CMD_SETEPHEMERIS] @ le_bytes 4 (length ps) @
     concat (map encode_pass ps)"

definition encode_utc :: "u64 \<Rightarrow> bytes" where
  "encode_utc ms = [SPBLE_PKT_CMD, SPBLE_CMD_SETUTC] @ le_bytes 8 (unat ms)"

definition encode_location :: "u64 \<Rightarrow> u64 \<Rightarrow> bytes" where
  "encode_location la lo = [SPBLE_PKT_CMD, SPBLE_CMD_SETLOCATION] @
     le_bytes 8 (unat la) @ le_bytes 8 (unat lo)"

lemma length_encode_pass [simp]: "length (encode_pass p) = 6"
  by (simp add: encode_pass_def)

lemma length_encode_passes [simp]: "length (concat (map encode_pass ps)) = 6 * length ps"
  by (induction ps) auto

section \<open>The entries of a request\<close>

text \<open>The entries the bytes after the count hold: whole groups of six bytes.\<close>

fun decode_passes :: "bytes \<Rightarrow> sat_pass list" where
  "decode_passes p =
     (if length p < 6 then []
      else \<lparr>sp_timestamp = le_word (take 4 p), sp_duration = le_word (take 2 (drop 4 p))\<rparr>
           # decode_passes (drop 6 p))"

declare decode_passes.simps [simp del]

lemma decode_encode_passes: "decode_passes (concat (map encode_pass ps)) = ps"
proof (induction ps)
  case Nil
  then show ?case by (simp add: decode_passes.simps)
next
  case (Cons p ps)
  let ?r = "concat (map encode_pass ps)"
  have "decode_passes (encode_pass p @ ?r) =
      \<lparr>sp_timestamp = le_word (le_bytes 4 (unat (sp_timestamp p))),
       sp_duration = le_word (le_bytes 2 (unat (sp_duration p)))\<rparr> # decode_passes ?r"
    by (subst decode_passes.simps) (simp add: encode_pass_def)
  with Cons.IH show ?case by simp
qed

lemma length_decode_passes: "length (decode_passes p) = length p div 6"
proof (induction p rule: decode_passes.induct)
  case (1 p)
  then show ?case by (subst decode_passes.simps) (simp add: le_div_geq)
qed

text \<open>The loop is in bounds and adds the first \<open>n\<close> entries through \<open>sat_pass_add\<close>.\<close>

lemma ephemeris_loop_step:
  "\<not> length p < 6 \<Longrightarrow> run_state (ephemeris_loop e (Suc n) p (length p)) s =
     run_state (do {
       resp \<leftarrow> sat_pass_add e (le_word (take 4 p)) (le_word (take 2 (drop 4 p)));
       if resp \<noteq> 0 then ret ()
       else ephemeris_loop e n (drop 6 p) (length (drop 6 p))
     }) s"
  by (simp split: prod.splits)

lemma ephemeris_loop_eq:
  "run_state (ephemeris_loop e n p (length p)) s =
   run_state (add_passes (sat_pass_add e) (take n (decode_passes p))) s"
proof (induction n arbitrary: p s)
  case 0
  then show ?case by simp
next
  case (Suc n)
  show ?case
  proof (cases "length p < 6")
    case True
    then show ?thesis by (simp add: decode_passes.simps)
  next
    case False
    then show ?thesis
      by (subst ephemeris_loop_step) (simp_all add: decode_passes.simps [of p]
        Suc.IH [of "drop 6 p", simplified] split: prod.splits if_splits del: ephemeris_loop.simps)
  qed
qed

section \<open>The companion's packets arrive\<close>

lemma chr_write_utc:
  fixes s :: "'a ble_state_scheme" and t :: u64
  assumes "flags AND WRITE_FLAG_PREPARE e = 0"
  defines "h \<equiv> calls s @ [Hubble_time_set t, Uptime_get]"
  shows "run_state (chr_write_cb e (encode_utc t) flags) s =
    (10, s\<lparr>calls := h, g_utc_time := t - word_of_int (o_uptime e h)\<rparr>)"
  using assms by (simp add: chr_write_cb_def encode_utc_def read_byte_def spble_defs set_utc_cmd_def)

lemma chr_write_location:
  fixes s :: "'a ble_state_scheme"
  assumes "flags AND WRITE_FLAG_PREPARE e = 0"
  shows "run_state (chr_write_cb e (encode_location la lo) flags) s =
    (18, if cfg_pass_prediction e then s\<lparr>g_device_pos := \<lparr>lat = la, lon = lo\<rparr>\<rparr> else s)"
  using assms by (simp add: chr_write_cb_def encode_location_def read_byte_def spble_defs
      device_location_set_def)

lemma take_count_le:
  "length ps < 2 ^ 32 \<Longrightarrow> unat (le_word (le_bytes 4 (length ps)) :: u32) = length ps"
  by (simp add: le_word_u32 le_nat_le_bytes)

lemma chr_write_ephemeris:
  fixes s :: "'a ble_state_scheme"
  assumes "flags AND WRITE_FLAG_PREPARE e = 0" and "\<not> cfg_pass_prediction e"
    and "length ps < 2 ^ 32"
  shows "run_state (chr_write_cb e (encode_ephemeris ps) flags) s =
    (int (6 + 6 * length ps), exec (add_passes (sat_pass_add e) ps) s)"
proof -
  let ?p = "concat (map encode_pass ps)" and ?req = "encode_ephemeris ps"
  have len: "length ?req = 6 + 6 * length ps"
    by (simp add: encode_ephemeris_def)
  have "(set_ephemeris_cmd e ?req (length ?req) :: ('a ble_state_scheme, unit) state) =
      (if ps = [] then ret () else ephemeris_loop e (length ps) ?p (length ?p))"
    using assms(2) take_count_le [OF assms(3)]
    by (simp add: set_ephemeris_cmd_def len) (simp add: encode_ephemeris_def)
  moreover have "run_state (ephemeris_loop e (length ps) ?p (length ?p)) s =
      run_state (add_passes (sat_pass_add e) ps) s"
    by (simp add: ephemeris_loop_eq decode_encode_passes del: length_encode_passes)
  ultimately have eph: "exec (set_ephemeris_cmd e ?req (length ?req)) s =
      exec (add_passes (sat_pass_add e) ps) s"
    by (auto simp del: length_encode_passes)
  have "?req ! 0 = SPBLE_PKT_CMD" "?req ! 1 = SPBLE_CMD_SETEPHEMERIS" "2 \<le> length ?req"
    by (simp_all add: encode_ephemeris_def)
  with assms(1) len show ?thesis
    unfolding eph [symmetric]
    by (simp add: chr_write_cb_def read_byte_def spble_defs split: prod.splits)
qed

text \<open>The opposite of the encoders: a request whose second byte is no known command, or that
  does not start with the packet type, changes nothing.\<close>

lemma chr_write_unknown:
  fixes s :: "'a ble_state_scheme"
  assumes "2 \<le> length req"
    and "req ! 0 \<noteq> SPBLE_PKT_CMD \<or>
      req ! 1 \<notin> {SPBLE_CMD_SETUTC, SPBLE_CMD_SETEPHEMERIS, SPBLE_CMD_SETLOCATION}"
  shows "exec (chr_write_cb e req flags) s = s"
  using assms by (auto simp: chr_write_cb_def read_byte_def Let_def)

lemma chr_write_prepare:
  "flags AND WRITE_FLAG_PREPARE e \<noteq> 0 \<Longrightarrow> run_state (chr_write_cb e req flags) s = (0, s)"
  by (simp add: chr_write_cb_def)

text \<open>A write that is too short is read past its end.\<close>

lemma chr_write_short:
  fixes s :: "'a ble_state_scheme"
  assumes "flags AND WRITE_FLAG_PREPARE e = 0" and "req = [] \<or> req = [SPBLE_PKT_CMD]"
  shows "fault (exec (chr_write_cb e req flags) s)"
  using assms
  by (auto simp: chr_write_cb_def read_byte_def Let_def set_ephemeris_cmd_def spble_defs)

end
