(* ===== verification/Sat_Transmit.thy ===== *)
theory Sat_Transmit
  imports Sat_Schedule
begin

text \<open>
  \<^verbatim>\<open>app/src/sat_board.c\<close>, \<^verbatim>\<open>sat_transmit\<close>: one satellite window. The packet is built
  from the configured payload and then sent, repeatedly until the window closes in
  the timestamp build, once in the pass-prediction build.
\<close>

section \<open>Operations\<close>

text \<open>
  \<^verbatim>\<open>HUBBLE_FOR_WHILE\<close> with its body, with fuel: \<open>None\<close> is a loop that has not
  ended, \<open>Some r\<close> with \<open>r \<noteq> 0\<close> the early return of a failed send, \<open>Some 0\<close> the
  end of the window.
\<close>

fun send_loop :: "env \<Rightarrow> nat \<Rightarrow> bytes \<Rightarrow> int \<Rightarrow> int \<Rightarrow> ('a sat_state_scheme, int option) state" where
  "send_loop e 0 pkt now end_ms = ret None"
| "send_loop e (Suc fuel) pkt now end_ms =
     (if now \<le> end_ms then do {
        r \<leftarrow> ask (o_packet_send e) (Packet_send pkt RELIABILITY_NONE);
        if r \<noteq> 0 then ret (Some r)
        else do {
          freq \<leftarrow> gets g_retransmission_frequency_s;
          tell (Sleep (unat freq));
          now \<leftarrow> ask (o_uptime e) Uptime_get;
          send_loop e fuel pkt now end_ms
        }
      } else ret (Some 0))"

text \<open>The second half of \<^verbatim>\<open>sat_transmit\<close>, from the moment the packet exists.\<close>

definition transmit_packet :: "env \<Rightarrow> nat \<Rightarrow> bytes \<Rightarrow> ('a sat_state_scheme, int option) state" where
  "transmit_packet e fuel pkt = do {
     modify (\<lambda>s. s\<lparr>g_transmitting := True\<rparr>);
     _ \<leftarrow> led_blink_start e;
     sent \<leftarrow> (if \<not> cfg_pass_prediction e then do {
               now \<leftarrow> ask (o_uptime e) Uptime_get;
               start \<leftarrow> ask (o_uptime e) Uptime_get;
               time \<leftarrow> sat_transmission_time_get;
               send_loop e fuel pkt now (start + time * 1000)
             } else do {
               r \<leftarrow> ask (o_packet_send e) (Packet_send pkt RELIABILITY_NORMAL);
               ret (Some r)
             });
     (case sent of
        None \<Rightarrow> ret None
      | Some r \<Rightarrow>
          if r \<noteq> 0 then ret (Some r)
          else do {
            led_blink_stop e;
            modify (\<lambda>s. s\<lparr>g_transmitting := False\<rparr>);
            ret (Some 0)
          })
   }"

definition sat_transmit :: "env \<Rightarrow> nat \<Rightarrow> ('a sat_state_scheme, int option) state" where
  "sat_transmit e fuel = do {
     (pkt_buffer, pkt_len) \<leftarrow> sat_payload_build e;
     let pkt_len = nearest_packet_len_get pkt_len;
     (r, pkt) \<leftarrow> ask (o_packet_get e) (Packet_get pkt_buffer pkt_len);
     if r \<noteq> 0 then ret (Some r) else transmit_packet e fuel pkt
   }"

section \<open>The send loop\<close>

text \<open>What one round leaves in the log.\<close>

definition send_round :: "bytes \<Rightarrow> nat \<Rightarrow> call list" where
  "send_round pkt freq = [Packet_send pkt RELIABILITY_NONE, Sleep freq, Uptime_get]"

definition send_rounds :: "bytes \<Rightarrow> nat \<Rightarrow> nat \<Rightarrow> call list" where
  "send_rounds pkt freq n = concat (replicate n (send_round pkt freq))"

lemma send_rounds_Suc: "send_rounds pkt f (Suc n) = send_round pkt f @ send_rounds pkt f n"
  by (simp add: send_rounds_def)

lemma send_rounds_0 [simp]: "send_rounds pkt f 0 = []"
  by (simp add: send_rounds_def)

lemma send_loop_shape:
  "result (send_loop e fuel pkt now end_ms) s = Some r \<Longrightarrow>
    f = unat (g_retransmission_frequency_s s) \<Longrightarrow>
    \<exists>n. exec (send_loop e fuel pkt now end_ms) s =
      s\<lparr>calls := calls s @ send_rounds pkt f n @
         (if r = 0 then [] else [Packet_send pkt RELIABILITY_NONE])\<rparr> \<and>
      (r = 0 \<longrightarrow> now \<le> end_ms \<longrightarrow> 0 < n) \<and> (end_ms < now \<longrightarrow> r = 0 \<and> n = 0)"
proof (induction fuel arbitrary: now s)
  case 0
  then show ?case by simp
next
  case (Suc fuel)
  let ?h = "calls s @ [Packet_send pkt RELIABILITY_NONE]"
  consider (over) "\<not> now \<le> end_ms" | (failed) "now \<le> end_ms" "o_packet_send e ?h \<noteq> 0"
    | (round) "now \<le> end_ms" "o_packet_send e ?h = 0" by blast
  then show ?case
  proof cases
    case over
    with Suc.prems(1) have "r = 0" by simp
    with over show ?thesis by (intro exI [of _ 0]) simp
  next
    case failed
    with Suc.prems(1) have "r = o_packet_send e ?h" by simp
    with failed show ?thesis by (intro exI [of _ 0]) simp
  next
    case round
    let ?s = "s\<lparr>calls := calls s @ send_round pkt f\<rparr>"
    let ?now = "o_uptime e (calls s @ send_round pkt f)"
    have run: "run_state (send_loop e (Suc fuel) pkt now end_ms) s =
        run_state (send_loop e fuel pkt ?now end_ms) ?s"
      using round Suc.prems(2) by (simp add: send_round_def)
    with Suc.prems(1) have "result (send_loop e fuel pkt ?now end_ms) ?s = Some r" by simp
    from Suc.IH [OF this] Suc.prems(2) obtain n where
      n: "exec (send_loop e fuel pkt ?now end_ms) ?s =
        ?s\<lparr>calls := calls ?s @ send_rounds pkt f n @
          (if r = 0 then [] else [Packet_send pkt RELIABILITY_NONE])\<rparr>" by auto
    have "exec (send_loop e (Suc fuel) pkt now end_ms) s =
        s\<lparr>calls := calls s @ send_rounds pkt f (Suc n) @
          (if r = 0 then [] else [Packet_send pkt RELIABILITY_NONE])\<rparr>"
      by (subst run) (simp add: n send_rounds_Suc)
    with round show ?thesis by (intro exI [of _ "Suc n"] conjI) simp_all
  qed
qed

text \<open>
  The kernel's clock: uptime never goes back, and \<^verbatim>\<open>k_sleep(K_SECONDS(n))\<close> returns
  no earlier than \<open>n\<close> seconds later.
\<close>

definition clock_ok :: "env \<Rightarrow> bool" where
  "clock_ok e \<longleftrightarrow>
     (\<forall>tr cs. o_uptime e (tr @ [Uptime_get]) \<le> o_uptime e (tr @ [Uptime_get] @ cs @ [Uptime_get])) \<and>
     (\<forall>tr cs n ds. o_uptime e (tr @ [Uptime_get]) + 1000 * int n \<le>
        o_uptime e (tr @ [Uptime_get] @ cs @ [Sleep n] @ ds @ [Uptime_get]))"

text \<open>\<open>now\<close> is the last value read from the clock.\<close>

definition clock_read :: "env \<Rightarrow> call list \<Rightarrow> int \<Rightarrow> bool" where
  "clock_read e tr now \<longleftrightarrow> (\<exists>h cs. tr = h @ [Uptime_get] @ cs \<and> now = o_uptime e (h @ [Uptime_get]))"

lemma clock_read_round:
  assumes "clock_ok e" and "clock_read e tr now"
    and "now' = o_uptime e (tr @ send_round pkt f)"
  shows "now + 1000 * int f \<le> now'" and "clock_read e (tr @ send_round pkt f) now'"
proof -
  obtain h cs where tr: "tr = h @ [Uptime_get] @ cs" "now = o_uptime e (h @ [Uptime_get])"
    using assms(2) by (auto simp: clock_read_def)
  have "o_uptime e (h @ [Uptime_get]) + 1000 * int f \<le> o_uptime e
      (h @ [Uptime_get] @ (cs @ [Packet_send pkt RELIABILITY_NONE]) @ [Sleep f] @ [] @ [Uptime_get])"
    using assms(1) unfolding clock_ok_def by blast
  then show "now + 1000 * int f \<le> now'"
    by (simp add: tr assms(3) send_round_def)
  show "clock_read e (tr @ send_round pkt f) now'"
    unfolding clock_read_def assms(3) send_round_def
    by (intro exI [of _ "tr @ [Packet_send pkt RELIABILITY_NONE, Sleep f]"] exI [of _ "[]"]) simp
qed

lemma send_loop_ends:
  assumes "clock_ok e" and "0 < f"
  shows "clock_read e (calls s) now \<Longrightarrow> f = unat (g_retransmission_frequency_s s) \<Longrightarrow>
    end_ms - now < int fuel * (1000 * int f) \<Longrightarrow>
    \<exists>r n. result (send_loop e (Suc fuel) pkt now end_ms) s = Some r \<and>
      exec (send_loop e (Suc fuel) pkt now end_ms) s =
        s\<lparr>calls := calls s @ send_rounds pkt f n @
           (if r = 0 then [] else [Packet_send pkt RELIABILITY_NONE])\<rparr> \<and>
      (0 < n \<longrightarrow> (int n - 1) * (1000 * int f) \<le> end_ms - now) \<and>
      (r = 0 \<longrightarrow> now \<le> end_ms \<longrightarrow> 0 < n)"
proof (induction fuel arbitrary: now s)
  case 0
  then show ?case by (intro exI [of _ 0]) auto
next
  case (Suc fuel)
  let ?h = "calls s @ [Packet_send pkt RELIABILITY_NONE]"
  consider (over) "\<not> now \<le> end_ms" | (failed) "now \<le> end_ms" "o_packet_send e ?h \<noteq> 0"
    | (round) "now \<le> end_ms" "o_packet_send e ?h = 0" by blast
  then show ?case
  proof cases
    case over
    then show ?thesis by (intro exI [of _ 0]) auto
  next
    case failed
    then show ?thesis by (intro exI [of _ "o_packet_send e ?h"] exI [of _ 0]) auto
  next
    case round
    let ?s = "s\<lparr>calls := calls s @ send_round pkt f\<rparr>"
    let ?now = "o_uptime e (calls s @ send_round pkt f)"
    let ?tail = "send_loop e (Suc fuel) pkt ?now end_ms"
    have run: "run_state (send_loop e (Suc (Suc fuel)) pkt now end_ms) s = run_state ?tail ?s"
      using round Suc.prems(2) by (simp add: send_round_def)
    note step = clock_read_round [OF assms(1) Suc.prems(1) refl, where f = f and pkt = pkt]
    have "end_ms - ?now < int fuel * (1000 * int f)"
      using Suc.prems(3) step(1) by (simp add: algebra_simps)
    with Suc.IH [of ?s ?now] step(2) Suc.prems(2) obtain r n where
      tail: "result ?tail ?s = Some r"
      "exec ?tail ?s = ?s\<lparr>calls := calls ?s @ send_rounds pkt f n @
           (if r = 0 then [] else [Packet_send pkt RELIABILITY_NONE])\<rparr>"
      "0 < n \<longrightarrow> (int n - 1) * (1000 * int f) \<le> end_ms - ?now"
      by (simp del: send_loop.simps) blast
    have res: "result (send_loop e (Suc (Suc fuel)) pkt now end_ms) s = Some r"
      by (subst run) (rule tail(1))
    have ex: "exec (send_loop e (Suc (Suc fuel)) pkt now end_ms) s =
        s\<lparr>calls := calls s @ send_rounds pkt f (Suc n) @
          (if r = 0 then [] else [Packet_send pkt RELIABILITY_NONE])\<rparr>"
      by (subst run, subst tail(2)) (simp add: send_rounds_Suc)
    have "(int (Suc n) - 1) * (1000 * int f) \<le> end_ms - now"
      using tail(3) step(1) round(1) by (cases n) (auto simp: algebra_simps)
    with res ex show ?thesis by blast
  qed
qed

section \<open>The whole transmission\<close>

lemma sat_transmit_run:
  assumes "headers_ok e" and "board_ok e s"
  shows "\<exists>buf len cs r pkt. list_all is_payload_read cs \<and> length buf = PAYLOAD_MAX e \<and>
     len \<in> {0, 4, 13, PAYLOAD_MAX e} \<and>
     o_packet_get e (calls s @ cs @ [Packet_get buf len]) = (r, pkt) \<and>
     (\<forall>fuel. run_state (sat_transmit e fuel) s =
       (if r \<noteq> 0 then (Some r, s\<lparr>calls := calls s @ cs @ [Packet_get buf len]\<rparr>)
        else run_state (transmit_packet e fuel pkt)
               (s\<lparr>calls := calls s @ cs @ [Packet_get buf len]\<rparr>)))"
proof -
  obtain buf len cs where b: "run_state (sat_payload_build e) s =
      ((buf, len), s\<lparr>calls := calls s @ cs\<rparr>)" "list_all is_payload_read cs"
      "length buf = PAYLOAD_MAX e" "nearest_packet_len_get len \<in> {0, 4, 13, PAYLOAD_MAX e}"
    using sat_payload_build_run [OF assms] by blast
  obtain r pkt where "o_packet_get e (calls s @ cs @ [Packet_get buf (nearest_packet_len_get len)])
      = (r, pkt)" by fastforce
  with b show ?thesis
    by (intro exI [of _ buf] exI [of _ "nearest_packet_len_get len"] exI [of _ cs]
        exI [of _ r] exI [of _ pkt]) (simp add: sat_transmit_def)
qed

text \<open>How one window ends in the pass-prediction build: one packet, sent reliably.\<close>

lemma transmit_packet_prediction:
  assumes "cfg_pass_prediction e"
  obtains ls ts r where "list_all starts_led ls" and "list_all is_led ts"
    and "r = o_packet_send e (calls s @ ls @ [Packet_send pkt RELIABILITY_NORMAL])"
    and "run_state (transmit_packet e fuel pkt) s =
      (Some r, s\<lparr>calls := calls s @ ls @ [Packet_send pkt RELIABILITY_NORMAL] @
                   (if r = 0 then ts else []),
                 g_transmitting := (r \<noteq> 0)\<rparr>)"
proof -
  let ?s = "s\<lparr>g_transmitting := True\<rparr>"
  obtain x ls where l: "run_state (led_blink_start e) ?s = (x, ?s\<lparr>calls := calls ?s @ ls\<rparr>)"
      "list_all starts_led ls"
    using logs_led_blink_start by (rule logsE)
  let ?h = "calls s @ ls @ [Packet_send pkt RELIABILITY_NORMAL]"
  let ?t = "s\<lparr>g_transmitting := True, calls := ?h\<rparr>"
  obtain u ts where t: "run_state (led_blink_stop e) ?t = (u, ?t\<lparr>calls := calls ?t @ ts\<rparr>)"
      "list_all is_led ts"
    using logs_led_blink_stop by (rule logsE)
  show thesis
    by (rule that [OF l(2) t(2) refl])
      (use l(1) t(1) assms in \<open>simp add: transmit_packet_def\<close>)
qed

text \<open>The seconds left by \<^verbatim>\<open>sat_transmission_time_get\<close>: the current pass's duration.\<close>

definition window_s :: "'a sat_state_scheme \<Rightarrow> int" where
  "window_s s = (if pending s = [] then - 1 else uint (sp_duration (hd (pending s))))"

lemma run_transmission_time:
  assumes "table_inv s"
  shows "run_state sat_transmission_time_get s = (window_s s, s)"
proof (cases "g_sat_passes_count s \<le> g_sat_passes_idx s")
  case True
  then show ?thesis
    by (simp add: sat_transmission_time_get_def window_s_def pending_def word_le_nat_alt min_def)
next
  case False
  then have lt: "unat (g_sat_passes_idx s) < unat (g_sat_passes_count s)"
    by (simp add: word_le_nat_alt)
  with assms have "pending s \<noteq> []" "hd (pending s) = g_sat_passes s ! unat (g_sat_passes_idx s)"
    by (auto simp: pending_def table_inv_def hd_drop_conv_nth)
  with lt False assms show ?thesis
    by (simp add: sat_transmission_time_get_def window_s_def table_inv_def)
qed

text \<open>With enough fuel the loop of the timestamp build ends.\<close>

lemma send_loop_runs:
  assumes "clock_ok e" and "f = unat (g_retransmission_frequency_s u)" and "0 < f"
    and "clock_read e (calls u) t0"
  shows "\<exists>k. \<forall>fuel\<ge>k. \<exists>r n. run_state (send_loop e fuel pkt t0 end_ms) u = (Some r, u\<lparr>calls := calls u @
      send_rounds pkt f n @ (if r = 0 then [] else [Packet_send pkt RELIABILITY_NONE])\<rparr>) \<and>
    (0 < n \<longrightarrow> (int n - 1) * (1000 * int f) \<le> end_ms - t0) \<and>
    (r = 0 \<longrightarrow> t0 \<le> end_ms \<longrightarrow> 0 < n)"
proof (rule exI [of _ "Suc (nat (end_ms - t0) + 1)"], intro allI impI)
  fix fuel
  assume "Suc (nat (end_ms - t0) + 1) \<le> fuel"
  then obtain m where m: "fuel = Suc m" "nat (end_ms - t0) + 1 \<le> m"
    by (cases fuel) auto
  have "end_ms - t0 < int m * 1" using m(2) by linarith
  also have "\<dots> \<le> int m * (1000 * int f)" using assms(3) by (intro mult_left_mono) auto
  finally have "end_ms - t0 < int m * (1000 * int f)" .
  from send_loop_ends [OF assms(1,3,4,2) this, of pkt]
  show "\<exists>r n. run_state (send_loop e fuel pkt t0 end_ms) u = (Some r, u\<lparr>calls := calls u @
      send_rounds pkt f n @ (if r = 0 then [] else [Packet_send pkt RELIABILITY_NONE])\<rparr>) \<and>
    (0 < n \<longrightarrow> (int n - 1) * (1000 * int f) \<le> end_ms - t0) \<and>
    (r = 0 \<longrightarrow> t0 \<le> end_ms \<longrightarrow> 0 < n)"
    unfolding m(1) by (metis prod.collapse)
qed

lemma transmit_packet_window:
  assumes "queue_ok e s" and "clock_ok e" and "f = unat (g_retransmission_frequency_s s)" "0 < f"
  shows "\<exists>k ls t0 t1. list_all starts_led ls \<and>
     t0 = o_uptime e (calls s @ ls @ [Uptime_get]) \<and>
     t1 = o_uptime e (calls s @ ls @ [Uptime_get, Uptime_get]) \<and> t0 \<le> t1 \<and>
     (\<forall>fuel\<ge>k. \<exists>r n ts. list_all is_led ts \<and>
        run_state (transmit_packet e fuel pkt) s =
          (Some r, s\<lparr>calls := calls s @ ls @ [Uptime_get, Uptime_get] @ send_rounds pkt f n @
             (if r = 0 then ts else [Packet_send pkt RELIABILITY_NONE]),
             g_transmitting := (r \<noteq> 0)\<rparr>) \<and>
        (0 < n \<longrightarrow> (int n - 1) * (1000 * int f) \<le> 1000 * window_s s + (t1 - t0)) \<and>
        (r = 0 \<longrightarrow> pending s \<noteq> [] \<longrightarrow> 0 < n))"
proof -
  let ?s = "s\<lparr>g_transmitting := True\<rparr>"
  obtain x ls where l: "run_state (led_blink_start e) ?s = (x, ?s\<lparr>calls := calls ?s @ ls\<rparr>)"
      "list_all starts_led ls"
    using logs_led_blink_start by (rule logsE)
  define t0 where "t0 = o_uptime e (calls s @ ls @ [Uptime_get])"
  define t1 where "t1 = o_uptime e (calls s @ ls @ [Uptime_get, Uptime_get])"
  have mono: "t0 \<le> t1"
  proof -
    have "o_uptime e ((calls s @ ls) @ [Uptime_get]) \<le>
        o_uptime e ((calls s @ ls) @ [Uptime_get] @ [] @ [Uptime_get])"
      using assms(2) unfolding clock_ok_def by blast
    then show ?thesis by (simp add: t0_def t1_def)
  qed
  let ?u = "s\<lparr>g_transmitting := True, calls := calls s @ ls @ [Uptime_get, Uptime_get]\<rparr>"
  let ?fin = "t1 + window_s s * 1000"
  have ws: "run_state sat_transmission_time_get ?u = (window_s s, ?u)"
    using run_transmission_time [of ?u] assms(1)
    by (simp add: queue_ok_def table_inv_def window_s_def pending_def)
  have read: "clock_read e (calls ?u) t0"
    unfolding clock_read_def t0_def
    by (intro exI [of _ "calls s @ ls"] exI [of _ "[Uptime_get]"]) simp
  obtain k where k: "\<And>fuel. k \<le> fuel \<Longrightarrow> \<exists>r n. run_state (send_loop e fuel pkt t0 ?fin) ?u =
      (Some r, ?u\<lparr>calls := calls ?u @ send_rounds pkt f n @
         (if r = 0 then [] else [Packet_send pkt RELIABILITY_NONE])\<rparr>) \<and>
      (0 < n \<longrightarrow> (int n - 1) * (1000 * int f) \<le> ?fin - t0) \<and> (r = 0 \<longrightarrow> t0 \<le> ?fin \<longrightarrow> 0 < n)"
    using send_loop_runs [of e f ?u t0 pkt ?fin, OF assms(2) _ assms(4) read] assms(3) by auto
  have "\<exists>r n ts. list_all is_led ts \<and>
        run_state (transmit_packet e fuel pkt) s =
          (Some r, s\<lparr>calls := calls s @ ls @ [Uptime_get, Uptime_get] @ send_rounds pkt f n @
             (if r = 0 then ts else [Packet_send pkt RELIABILITY_NONE]),
             g_transmitting := (r \<noteq> 0)\<rparr>) \<and>
        (0 < n \<longrightarrow> (int n - 1) * (1000 * int f) \<le> 1000 * window_s s + (t1 - t0)) \<and>
        (r = 0 \<longrightarrow> pending s \<noteq> [] \<longrightarrow> 0 < n)" if fuel: "k \<le> fuel" for fuel
  proof -
    from k [OF fuel] obtain r n where run: "run_state (send_loop e fuel pkt t0 ?fin) ?u =
        (Some r, ?u\<lparr>calls := calls ?u @ send_rounds pkt f n @
           (if r = 0 then [] else [Packet_send pkt RELIABILITY_NONE])\<rparr>)"
      and sl: "0 < n \<longrightarrow> (int n - 1) * (1000 * int f) \<le> ?fin - t0" "r = 0 \<longrightarrow> t0 \<le> ?fin \<longrightarrow> 0 < n"
      by blast
    let ?v = "s\<lparr>g_transmitting := True, calls := calls s @ ls @ [Uptime_get, Uptime_get] @
        send_rounds pkt f n\<rparr>"
    obtain y ts where t: "run_state (led_blink_stop e) ?v = (y, ?v\<lparr>calls := calls ?v @ ts\<rparr>)"
        "list_all is_led ts"
      using logs_led_blink_stop by (rule logsE)
    have "pending s \<noteq> [] \<longrightarrow> t0 \<le> ?fin"
      using mono uint_ge_0 [of "sp_duration (hd (pending s))"]
      by (simp add: window_s_def add_increasing2)
    with sl t(2) show ?thesis
      using l(1) assms(1) ws run t(1)
      by (intro exI [of _ r] exI [of _ n] exI [of _ ts])
        (auto simp: transmit_packet_def queue_ok_def t0_def t1_def)
  qed
  with l(2) mono show ?thesis
    by (intro exI [of _ k] exI [of _ ls] exI [of _ t0] exI [of _ t1])
      (simp add: t0_def t1_def)
qed

end
