(* ===== verification/C_Library.thy ===== *)
theory C_Library
  imports C_Prelude "HOL-Library.Char_ord" "HOL-Library.Signed_Division"
begin

text \<open>
  The two functions of the C library the shell depends on: \<^verbatim>\<open>strtol\<close> in base 10 on
  the 32-bit \<^verbatim>\<open>long\<close> of the target, and \<^verbatim>\<open>gmtime_r\<close>, the Gregorian calendar in UTC.
  A C string is the list of its characters before the terminator.
\<close>

section \<open>strtol\<close>

definition isspace :: "char \<Rightarrow> bool" where
  "isspace c = (let n = (of_char c :: nat) in n = 32 \<or> (9 \<le> n \<and> n \<le> 13))"

definition isdigit :: "char \<Rightarrow> bool" where
  "isdigit c = (let n = (of_char c :: nat) in 48 \<le> n \<and> n \<le> 57)"

definition digit_val :: "char \<Rightarrow> nat" where
  "digit_val c = of_char c - 48"

definition digits_val :: "string \<Rightarrow> nat" where
  "digits_val ds = foldl (\<lambda>n c. 10 * n + digit_val c) 0 ds"

definition LONG_MAX :: int where "LONG_MAX = 2 ^ 31 - 1"
definition LONG_MIN :: int where "LONG_MIN = - (2 ^ 31)"

fun strip_sign :: "string \<Rightarrow> bool \<times> string" where
  "strip_sign [] = (False, [])"
| "strip_sign (c # cs) =
     (if c = CHR ''-'' then (True, cs) else if c = CHR ''+'' then (False, cs)
      else (False, c # cs))"

definition strtol :: "string \<Rightarrow> int" where
  "strtol s = (
     let (neg, rest) = strip_sign (dropWhile isspace s);
         n = int (digits_val (takeWhile isdigit rest))
     in max LONG_MIN (min LONG_MAX (if neg then - n else n)))"

text \<open>Decimal numerals, as a user types them, are read back.\<close>

definition digit_char :: "nat \<Rightarrow> char" where
  "digit_char d = char_of (48 + d)"

fun numeral_text :: "nat \<Rightarrow> string" where
  "numeral_text n =
     (if n < 10 then [digit_char n] else numeral_text (n div 10) @ [digit_char (n mod 10)])"

declare numeral_text.simps [simp del]

lemma digit_char_val: "d < 10 \<Longrightarrow> of_char (digit_char d) = 48 + d"
  by (simp add: digit_char_def)

lemma isdigit_digit_char: "d < 10 \<Longrightarrow> isdigit (digit_char d)"
  by (simp add: isdigit_def digit_char_val)

lemma numeral_text_digits: "list_all isdigit (numeral_text n)"
proof (induction n rule: numeral_text.induct)
  case (1 n)
  then show ?case
    by (subst numeral_text.simps) (simp add: isdigit_digit_char)
qed

lemma digits_val_numeral_text: "digits_val (numeral_text n) = n"
proof (induction n rule: numeral_text.induct)
  case (1 n)
  then show ?case
    by (subst numeral_text.simps) (simp add: digits_val_def digit_val_def digit_char_val)
qed

lemma numeral_text_ne: "numeral_text n \<noteq> []"
  by (subst numeral_text.simps) simp

lemma isdigit_plain: "isdigit c \<Longrightarrow> \<not> isspace c \<and> c \<noteq> CHR ''-'' \<and> c \<noteq> CHR ''+''"
  by (auto simp: isdigit_def isspace_def Let_def)

lemma strtol_numeral_text:
  assumes "int n \<le> LONG_MAX"
  shows "strtol (numeral_text n) = int n"
proof -
  obtain c cs where c: "numeral_text n = c # cs"
    using numeral_text_ne by (cases "numeral_text n") auto
  have all: "list_all isdigit (numeral_text n)" by (rule numeral_text_digits)
  then have "\<not> isspace c" "strip_sign (c # cs) = (False, c # cs)"
    using isdigit_plain [of c] by (auto simp: c)
  moreover have "takeWhile isdigit (c # cs) = c # cs"
    using all by (auto simp: c list_all_iff takeWhile_eq_all_conv)
  ultimately show ?thesis
    using assms digits_val_numeral_text [of n]
    by (simp add: strtol_def c LONG_MIN_def LONG_MAX_def)
qed

section \<open>gmtime\<close>

record tm =
  tm_year :: int
  tm_mon :: int
  tm_mday :: int
  tm_hour :: int
  tm_min :: int
  tm_sec :: int

definition leap :: "nat \<Rightarrow> bool" where
  "leap y \<longleftrightarrow> y mod 4 = 0 \<and> (y mod 100 \<noteq> 0 \<or> y mod 400 = 0)"

definition year_len :: "nat \<Rightarrow> nat" where
  "year_len y = (if leap y then 366 else 365)"

definition month_lens :: "nat \<Rightarrow> nat list" where
  "month_lens y = [31, if leap y then 29 else 28, 31, 30, 31, 30, 31, 31, 30, 31, 30, 31]"

text \<open>The year of a day counted from the start of year \<open>y\<close>, and the day in that year.\<close>

function split_year :: "nat \<Rightarrow> nat \<Rightarrow> nat \<times> nat" where
  "split_year y d = (if d < year_len y then (y, d) else split_year (Suc y) (d - year_len y))"
  by pat_completeness auto
termination
  by (relation "measure snd") (auto simp: year_len_def)

declare split_year.simps [simp del]

fun split_month :: "nat list \<Rightarrow> nat \<Rightarrow> nat \<times> nat" where
  "split_month [] d = (0, d)"
| "split_month (l # ls) d =
     (if d < l then (0, d) else (let (m, d') = split_month ls (d - l) in (Suc m, d')))"

definition gmtime :: "nat \<Rightarrow> tm" where
  "gmtime t = (
     let (y, yd) = split_year 1970 (t div 86400);
         (m, md) = split_month (month_lens y) yd;
         s = t mod 86400
     in \<lparr>tm_year = int y - 1900, tm_mon = int m, tm_mday = int md + 1,
         tm_hour = int (s div 3600), tm_min = int (s mod 3600 div 60), tm_sec = int (s mod 60)\<rparr>)"

text \<open>The other way: the seconds from the epoch to a calendar date.\<close>

definition days_before_year :: "nat \<Rightarrow> nat" where
  "days_before_year y = sum_list (map year_len [1970..<y])"

definition days_before_month :: "nat \<Rightarrow> nat \<Rightarrow> nat" where
  "days_before_month y m = sum_list (take m (month_lens y))"

definition timegm :: "tm \<Rightarrow> nat" where
  "timegm t = (
     let y = nat (tm_year t + 1900); m = nat (tm_mon t) in
     (days_before_year y + days_before_month y m + nat (tm_mday t - 1)) * 86400
       + nat (tm_hour t) * 3600 + nat (tm_min t) * 60 + nat (tm_sec t))"

definition valid_tm :: "tm \<Rightarrow> bool" where
  "valid_tm t \<longleftrightarrow> 70 \<le> tm_year t \<and> 0 \<le> tm_mon t \<and> tm_mon t < 12 \<and>
     1 \<le> tm_mday t \<and> tm_mday t \<le> int (month_lens (nat (tm_year t + 1900)) ! nat (tm_mon t)) \<and>
     0 \<le> tm_hour t \<and> tm_hour t < 24 \<and> 0 \<le> tm_min t \<and> tm_min t < 60 \<and>
     0 \<le> tm_sec t \<and> tm_sec t < 60"

lemma split_year_spec:
  assumes "split_year y d = (y', d')"
  shows "y \<le> y' \<and> d' < year_len y' \<and> sum_list (map year_len [y..<y']) + d' = d"
  using assms
proof (induction y d rule: split_year.induct)
  case (1 y d)
  show ?case
  proof (cases "d < year_len y")
    case True
    with "1.prems" show ?thesis by (auto simp: split_year.simps [of y d])
  next
    case False
    with "1.prems" have "split_year (Suc y) (d - year_len y) = (y', d')"
      by (simp add: split_year.simps [of y d])
    from "1.IH" [OF False this] False show ?thesis
      by (auto simp: upt_conv_Cons [of y y'])
  qed
qed

lemma split_month_spec:
  "d < sum_list ls \<Longrightarrow> split_month ls d = (m, d') \<Longrightarrow>
   m < length ls \<and> d' < ls ! m \<and> sum_list (take m ls) + d' = d"
proof (induction ls arbitrary: d m d')
  case Nil
  then show ?case by simp
next
  case (Cons l ls)
  show ?case
  proof (cases "d < l")
    case True
    with Cons.prems show ?thesis by auto
  next
    case False
    obtain k r where k: "split_month ls (d - l) = (k, r)" by fastforce
    have "d - l < sum_list ls" using Cons.prems(1) False by simp
    from Cons.IH [OF this k] Cons.prems(2) False k show ?thesis by auto
  qed
qed

lemma sum_month_lens: "sum_list (month_lens y) = year_len y"
  by (simp add: month_lens_def year_len_def)

lemma gmtime_correct: "valid_tm (gmtime t)" "timegm (gmtime t) = t"
proof -
  obtain y yd where y: "split_year 1970 (t div 86400) = (y, yd)" by fastforce
  obtain m md where m: "split_month (month_lens y) yd = (m, md)" by fastforce
  note ys = split_year_spec [OF y]
  have "yd < sum_list (month_lens y)" using ys by (simp add: sum_month_lens)
  note ms = split_month_spec [OF this m]
  have "length (month_lens y) = 12" by (simp add: month_lens_def)
  with ms have m12: "m < 12" by simp
  have ny: "nat (int y - 1900 + 1900) = y" by simp
  show "valid_tm (gmtime t)"
    using ys ms m12 by (simp add: gmtime_def y m valid_tm_def Let_def) linarith
  have "timegm (gmtime t) = (days_before_year y + days_before_month y m + md) * 86400
      + t mod 86400 div 3600 * 3600 + t mod 86400 mod 3600 div 60 * 60 + t mod 86400 mod 60"
    by (simp add: timegm_def gmtime_def y m Let_def)
  also have "days_before_year y + days_before_month y m + md = t div 86400"
    using ys ms by (simp add: days_before_year_def days_before_month_def)
  also have "t div 86400 * 86400 + t mod 86400 div 3600 * 3600
      + t mod 86400 mod 3600 div 60 * 60 + t mod 86400 mod 60 =
      t div 86400 * 86400 + (u div 3600 * 3600 + (u mod 3600 div 60 * 60 + u mod 3600 mod 60))"
    if "u = t mod 86400" for u
    by (simp add: that mod_mod_cancel)
  finally have "timegm (gmtime t) = t div 86400 * 86400 + (t mod 86400 div 3600 * 3600
      + (t mod 86400 mod 3600 div 60 * 60 + t mod 86400 mod 3600 mod 60))" by simp
  also have "\<dots> = t" by (simp only: div_mult_mod_eq)
  finally show "timegm (gmtime t) = t" by simp
qed

end
