(* ===== verification/Shell.thy ===== *)
theory Shell
  imports Ble_Gatt Sat_Transmit C_Library
begin

text \<open>
  \<^verbatim>\<open>app/src/shell.c\<close>: the operator's commands. A command gets its argument vector,
  \<open>argv ! 0\<close> the command's own name; what it prints is logged as the format string
  with its arguments. Printing an argument that does not exist sets the fault flag.
\<close>

section \<open>Operations\<close>

definition NUMBER_OF_TIMESTAMP_TO_PRINT :: "env \<Rightarrow> u16" where
  "NUMBER_OF_TIMESTAMP_TO_PRINT e = (if cfg_pass_prediction e then 1 else 4)"

definition shell_print :: "string \<Rightarrow> fmt_arg list \<Rightarrow> ('a world_scheme, unit) state" where
  "shell_print fmt args = tell (Shell_print fmt args)"

text \<open>\<^verbatim>\<open>argv[i]\<close> passed to a \<^verbatim>\<open>%s\<close> conversion.\<close>

definition argv_text :: "string list \<Rightarrow> nat \<Rightarrow> ('a world_scheme, fmt_arg) state" where
  "argv_text argv i = do {
     guard_ok (i < length argv);
     ret (Arg_s (if i < length argv then argv ! i else []))
   }"

definition text_bytes :: "string \<Rightarrow> bytes" where
  "text_bytes s = map of_char s"

definition cmd_retransmission :: "string list \<Rightarrow> ('a sat_state_scheme, int) state" where
  "cmd_retransmission argv =
     (if length argv \<noteq> 2 then do {
        shell_print ''It requires a value between 0 and 10'' [];
        ret (- EINVAL)
      }
      else (
        let freq = (word_of_int (strtol (argv ! 1)) :: u8) in
        if uint freq < 0 \<or> uint freq > 10 then do {
          shell_print ''It requires a value between 0 and 10'' [];
          ret (- EINVAL)
        }
        else do {
          tell (Mutex_lock Shell_mutex);
          _ \<leftarrow> sat_retransmission_set freq;
          tell (Mutex_unlock Shell_mutex);
          ret 0
        }))"

definition sensor_channel_get :: "env \<Rightarrow> string \<Rightarrow> int" where
  "sensor_channel_get e str =
     (if str = ''temperature'' then CHAN_AMBIENT_TEMP e
      else if str = ''pressure'' then CHAN_PRESS e
      else if str = ''humidity'' then CHAN_HUMIDITY e
      else if str = ''battery'' then CHAN_GAUGE_VOLTAGE e
      else CHAN_MAX e)"

text \<open>The statements of \<^verbatim>\<open>_cmd_payload\<close> between its lock and its unlock.\<close>

definition cmd_payload_set :: "env \<Rightarrow> string list \<Rightarrow> ('a sat_state_scheme, int) state" where
  "cmd_payload_set e argv =
     (if length argv = 2 then do {
        let channel = sensor_channel_get e (argv ! 1);
        _ \<leftarrow> sat_payload_set channel [] 0;
        ret (if channel \<noteq> CHAN_MAX e then 0 else - EINVAL)
      }
      else if length argv = 3 \<and> take 6 (argv ! 1) = ''custom'' then
        (let len = length (argv ! 2) in
         if len < 13 then do {
           _ \<leftarrow> sat_payload_set CUSTOM (text_bytes (argv ! 2)) len;
           ret 0
         } else ret (- EINVAL))
      else ret (- EINVAL))"

definition cmd_payload :: "env \<Rightarrow> string list \<Rightarrow> ('a sat_state_scheme, int) state" where
  "cmd_payload e argv = do {
     tell (Mutex_lock Shell_mutex);
     r \<leftarrow> cmd_payload_set e argv;
     tell (Mutex_unlock Shell_mutex);
     (if r \<noteq> 0 then do {
        a \<leftarrow> argv_text argv 1;
        shell_print ''Invalid payload %s'' [a]
      } else ret ());
     ret 0
   }"

definition cmd_sensor :: "env \<Rightarrow> string list \<Rightarrow> ('a world_scheme, int) state" where
  "cmd_sensor e argv =
     (if length argv = 2 then do {
        data \<leftarrow> sensor_data_get e (sensor_channel_get e (argv ! 1));
        a \<leftarrow> argv_text argv 1;
        (case data of
           Inr v \<Rightarrow> do {
             shell_print ''Sensor %s value %d.%06d'' [a, Arg_d (sint (val1 v)), Arg_d (sint (val2 v))];
             ret 0
           }
         | Inl err \<Rightarrow> do {
             shell_print ''Error %s - %d'' [a, Arg_d err];
             ret err
           })
      } else ret (- EINVAL))"

text \<open>The arguments of a printed date.\<close>

definition tm_args :: "tm \<Rightarrow> fmt_arg list" where
  "tm_args t = [Arg_d (tm_mon t + 1), Arg_d (tm_mday t), Arg_d (tm_year t + 1900),
     Arg_d (tm_hour t), Arg_d (tm_min t), Arg_d (tm_sec t)]"

fun print_timestamps :: "u32 list \<Rightarrow> ('a world_scheme, unit) state" where
  "print_timestamps [] = ret ()"
| "print_timestamps (ts # tss) = do {
     shell_print (CHR 0x09 # ''%02d/%02d/%04d %02d:%02d:%02d UTC (%d)'')
       (tm_args (gmtime (unat ts)) @ [Arg_d (sint ts)]);
     print_timestamps tss
   }"

text \<open>What \<^verbatim>\<open>_cmd_status\<close> prints before its label \<^verbatim>\<open>end\<close>.\<close>

definition status_report :: "env \<Rightarrow> ('a ble_state_scheme, unit) state" where
  "status_report e = do {
     utc_time \<leftarrow> gets g_utc_time;
     if utc_time = 0 then shell_print ''Waiting for time synchronization'' []
     else do {
       set \<leftarrow> crypto_key_is_set e;
       if \<not> set then shell_print ''Waiting for hubble cryptographic key'' []
       else do {
         ready \<leftarrow> ask (o_bt_is_ready e) Bt_is_ready;
         (if ready then shell_print ''Beaconing'' []
          else do {
            tx \<leftarrow> sat_is_transmitting;
            if tx then shell_print ''Transmitting to satellite'' [] else ret ()
          });
         (len, timestamps) \<leftarrow> sat_next_transmission_get e (NUMBER_OF_TIMESTAMP_TO_PRINT e);
         (if len > 0 then shell_print ''Next scheduled transmissions:'' [] else ret ());
         print_timestamps (take (nat len) timestamps)
       }
     }
   }"

definition cmd_status :: "env \<Rightarrow> ('a ble_state_scheme, int) state" where
  "cmd_status e = do {
     status_report e;
     if cfg_fuel_gauge e then do {
       (r, charge, voltage) \<leftarrow>
         ask (o_fuel_gauge e) (Fuel_gauge_get [RELATIVE_STATE_OF_CHARGE, VOLTAGE]);
       (if r = 0
        then shell_print ''Battery - Charge: %d%%, Voltage: %dmV''
               [Arg_d (uint charge), Arg_d (voltage sdiv 1000)]
        else ret ());
       ret r
     } else ret 0
   }"

definition cmd_time :: "env \<Rightarrow> ('a world_scheme, int) state" where
  "cmd_time e = do {
     now_ms \<leftarrow> ask (o_time_get e) Hubble_time_get;
     (if now_ms = 0 then shell_print ''Waiting for time synchronization'' []
      else shell_print ''%02d/%02d/%04d %02d:%02d:%02d UTC''
             (tm_args (gmtime (unat (now_ms div MSEC_PER_SEC)))));
     ret 0
   }"

definition cmd_key :: "env \<Rightarrow> string list \<Rightarrow> ('a key_state_scheme, int) state" where
  "cmd_key e argv =
     (if length argv \<noteq> 2 then do {
        shell_print ''Use: key <base64-hubble-key>'' [];
        ret (- EINVAL)
      }
      else do {
        r \<leftarrow> crypto_key_set e (argv ! 1) (length (argv ! 1));
        if r \<noteq> 0 then do {
          shell_print ''Invalid key provided'' [];
          ret (- EINVAL)
        } else ret 0
      })"

definition cmd_ble :: "env \<Rightarrow> string list \<Rightarrow> ('a ble_state_scheme, int) state" where
  "cmd_ble e argv =
     (if length argv \<noteq> 2 then do {
        shell_print ''Use: bluetooth <disable|enable>'' [];
        ret (- EINVAL)
      }
      else if argv ! 1 = ''enable'' then do { ble_enable e True; ret 0 }
      else if argv ! 1 = ''disable'' then do { ble_disable True; ret 0 }
      else do {
        a \<leftarrow> argv_text argv 1;
        shell_print ''Invalid parameter %s. Use: bluetooth <disable|enable>'' [a];
        ret (- EINVAL)
      })"

text \<open>The table of registered commands; an unknown name is the shell's own error.\<close>

definition shell_command ::
    "env \<Rightarrow> string list \<Rightarrow> ('a ble_state_scheme, int) state option" where
  "shell_command e argv = (
     if argv = [] then None
     else if hd argv = ''retransmission'' then Some (cmd_retransmission argv)
     else if hd argv = ''key'' then Some (cmd_key e argv)
     else if hd argv = ''payload'' then Some (cmd_payload e argv)
     else if hd argv = ''status'' then Some (cmd_status e)
     else if hd argv = ''time'' then Some (cmd_time e)
     else if hd argv = ''sensor'' then Some (cmd_sensor e argv)
     else if hd argv = ''bluetooth'' then Some (cmd_ble e argv)
     else None)"

lemma length_text_bytes [simp]: "length (text_bytes s) = length s"
  by (simp add: text_bytes_def)

end
