(* ===== verification/App_Inv.thy ===== *)
theory App_Inv
  imports Shell
begin

text \<open>
  The invariant of the application core's variables, and that every operation of the
  components keeps it: buffers have their declared sizes, the pass table is well
  formed, the retransmission period is in its documented range, the payload type is one of
  the enumerators or the number the shell stores for an unknown name, and no operation has
  read or written outside an object.
\<close>

section \<open>The invariant\<close>

text \<open>The enumerators of \<^verbatim>\<open>enum sat_payload_type\<close>, and what the payload type can hold.\<close>

definition payload_enumerators :: "env \<Rightarrow> int set" where
  "payload_enumerators e = {CUSTOM, GAUGE_VOLTAGE e, TEMP e, PRESSURE e, HUMIDITY e, INVALID e}"

definition payload_type_ok :: "env \<Rightarrow> int \<Rightarrow> bool" where
  "payload_type_ok e t \<longleftrightarrow> t \<in> payload_enumerators e \<or> t = CHAN_MAX e"

lemma payload_type_custom: "payload_type_ok e CUSTOM"
  by (simp add: payload_type_ok_def payload_enumerators_def)

lemma payload_type_channel: "payload_type_ok e (sensor_channel_get e name)"
  by (simp add: payload_type_ok_def payload_enumerators_def sensor_channel_get_def payload_type_defs)

lemma payload_type_invalid: "payload_type_ok e (INVALID e)"
  by (simp add: payload_type_ok_def payload_enumerators_def)

definition app_ok :: "env \<Rightarrow> 'a ble_state_scheme \<Rightarrow> bool" where
  "app_ok e s \<longleftrightarrow> board_ok e s \<and> table_inv s \<and> unat (g_retransmission_frequency_s s) \<le> 10 \<and>
     key_ok e s \<and> length (g_app_ad s) = 2 \<and> payload_type_ok e (g_payload_type s) \<and> \<not> fault s"

lemmas app_ok_defs = app_ok_def board_ok_def table_inv_def key_ok_def

named_theorems app_intros \<open>rules that prove that an operation keeps the invariant\<close>

lemma log_free_app_ok [app_intros]: "log_free (app_ok e)"
  by (rule log_freeI) (simp add: app_ok_defs)

section \<open>The satellite board\<close>

lemma keeps_guard_true [app_intros]: "b \<Longrightarrow> keeps (app_ok e) (guard_ok b)"
  by (simp add: keeps_def app_ok_defs)

lemma keeps_retransmission_set [app_intros]:
  "unat f \<le> 10 \<Longrightarrow> keeps (app_ok e) (sat_retransmission_set f)"
  by (simp add: keeps_def sat_retransmission_set_def app_ok_defs)

lemma keeps_payload_set [app_intros]:
  assumes "headers_ok e" and "len \<le> 12" and "len \<le> length data" and "payload_type_ok e t"
  shows "keeps (app_ok e) (sat_payload_set t data len)"
proof (rule keepsI)
  fix s :: "'a ble_state_scheme"
  assume "app_ok e s"
  moreover have "unat (of_nat len :: u8) = len"
    using assms(2) by (simp add: unat_of_nat)
  ultimately show "wp (sat_payload_set t data len) (\<lambda>_. app_ok e) s"
    using assms by (simp add: sat_payload_set_def wp_simps app_ok_defs headers_ok_def)
qed

lemma keeps_location_set [app_intros]: "keeps (app_ok e) (device_location_set e la lo)"
  by (simp add: keeps_def device_location_set_def app_ok_defs)

lemma keeps_payload_build [app_intros]:
  "headers_ok e \<Longrightarrow> keeps (app_ok e) (sat_payload_build e)"
  unfolding keeps_def
proof (intro allI impI)
  fix s :: "'a ble_state_scheme"
  assume "headers_ok e" and ok: "app_ok e s"
  then have "board_ok e s" by (simp add: app_ok_def)
  with \<open>headers_ok e\<close> obtain buf len cs where
    "run_state (sat_payload_build e) s = ((buf, len), s\<lparr>calls := calls s @ cs\<rparr>)"
    using sat_payload_build_run by blast
  with ok show "app_ok e (exec (sat_payload_build e) s)" by (simp add: app_ok_defs)
qed

lemma keeps_pass_add [app_intros]: "keeps (app_ok e) (sat_pass_add e t d)"
proof (rule keepsI)
  fix s :: "'a ble_state_scheme"
  assume ok: "app_ok e s"
  show "wp (sat_pass_add e t d) (\<lambda>_. app_ok e) s"
  proof (cases "cfg_pass_prediction e")
    case True
    with ok show ?thesis by (simp add: sat_pass_add_def wp_simps)
  next
    case False
    with ok have q: "queue_ok e s" by (simp add: app_ok_def queue_ok_def)
    show ?thesis
    proof (cases "queue_room s = 0")
      case True
      with ok q show ?thesis by (simp add: wp_run sat_pass_add_full)
    next
      case False
      with q sat_pass_add_room(1) [of e s t d] table_inv_add [OF q, of t d] ok show ?thesis
        by (auto simp: wp_run app_ok_defs queue_ok_def)
    qed
  qed
qed

lemma keeps_next_pass_loop [app_intros]: "keeps (app_ok e) (next_pass_loop e fuel now t)"
proof (induction fuel arbitrary: t)
  case 0
  show ?case by (simp add: keeps_return)
next
  case (Suc fuel)
  show ?case
    by (simp, intro keeps_intros keeps_modify app_intros Suc.IH) (simp_all add: app_ok_defs)
qed

lemma keeps_schedule [app_intros]: "keeps (app_ok e) (sat_schedule_next_transmission e fuel)"
proof (cases "cfg_pass_prediction e")
  case True
  then show ?thesis
    unfolding sat_schedule_next_transmission_def arm_sat_timer_def
    by (simp, intro keeps_intros app_intros)
next
  case False
  show ?thesis
  proof (rule keepsI)
    fix s :: "'a ble_state_scheme"
    assume ok: "app_ok e s"
    with False have "queue_ok e s" by (simp add: app_ok_def queue_ok_def)
    with ok pass_table.schedule_inv [of e s fuel] False
    show "wp (sat_schedule_next_transmission e fuel) (\<lambda>_. app_ok e) s"
      by (auto simp: wp_run sat_schedule_next_transmission_def app_ok_defs queue_ok_def
          arm_sat_timer_def split: prod.splits if_splits)
  qed
qed

lemma keeps_next_get [app_intros]: "keeps (app_ok e) (sat_next_transmission_get e n)"
proof (rule keepsI)
  fix s :: "'a ble_state_scheme"
  assume ok: "app_ok e s"
  show "wp (sat_next_transmission_get e n) (\<lambda>_. app_ok e) s"
  proof (cases "cfg_pass_prediction e")
    case True
    with ok show ?thesis by (simp add: sat_next_transmission_get_def wp_simps)
  next
    case False
    with ok have "queue_ok e s" by (simp add: app_ok_def queue_ok_def)
    with ok show ?thesis by (simp add: wp_run sat_next_transmission_table)
  qed
qed

section \<open>Transmission\<close>

lemma keeps_send_loop [app_intros]: "keeps (app_ok e) (send_loop e fuel pkt now end_ms)"
proof (induction fuel arbitrary: now)
  case 0
  show ?case by (simp add: keeps_return)
next
  case (Suc fuel)
  show ?case by (subst send_loop.simps) (intro keeps_intros app_intros Suc.IH)
qed

lemma keeps_transmission_time [app_intros]: "keeps (app_ok e) sat_transmission_time_get"
  by (simp add: keeps_def run_transmission_time app_ok_def)

lemma keeps_transmit_packet [app_intros]: "keeps (app_ok e) (transmit_packet e fuel pkt)"
  unfolding transmit_packet_def
  by (intro keeps_intros app_intros keeps_modify keeps_logs [OF logs_led_blink_start]
      keeps_logs [OF logs_led_blink_stop]) (simp_all add: app_ok_defs)

lemma keeps_transmit [app_intros]: "headers_ok e \<Longrightarrow> keeps (app_ok e) (sat_transmit e fuel)"
  unfolding sat_transmit_def Let_def by (intro keeps_intros app_intros)

section \<open>Key and advertising\<close>

lemma keeps_key_set [app_intros]: "keeps (app_ok e) (crypto_key_set e key len)"
  by (auto simp: keeps_def crypto_key_set_def app_ok_defs hubble_nvs_write_def split: prod.splits)

lemma keeps_key_get [app_intros]: "keeps (app_ok e) (key_get e)"
  by (auto simp: keeps_def key_get_def app_ok_defs hubble_nvs_read_def split: prod.splits)

lemma keeps_ble_init [app_intros]: "keeps (app_ok e) (ble_init e)"
  unfolding ble_init_def by (intro keeps_intros app_intros)

lemma keeps_adv_start [app_intros]: "keeps (app_ok e) (ble_adv_start e)"
  unfolding ble_adv_start_def
  by (intro keeps_intros app_intros keeps_modify) (simp_all add: app_ok_defs)

lemma keeps_adv_stop [app_intros]: "keeps (app_ok e) ble_adv_stop"
  unfolding ble_adv_stop_def by (intro keeps_intros app_intros)

lemma keeps_ble_enable [app_intros]: "keeps (app_ok e) (ble_enable e u)"
  unfolding ble_enable_def ble_enable_body_def
  by (intro keeps_intros app_intros keeps_modify) (simp_all add: app_ok_defs)

lemma keeps_ble_disable [app_intros]: "keeps (app_ok e) (ble_disable u)"
  unfolding ble_disable_def
  by (intro keeps_intros app_intros keeps_modify) (simp_all add: app_ok_defs)

lemma keeps_ble_work [app_intros]: "keeps (app_ok e) (ble_work_handler e)"
  unfolding ble_work_handler_def by (intro keeps_intros app_intros)

lemma keeps_provisioning_work [app_intros]: "keeps (app_ok e) (adv_provisioning_work_handler e)"
  unfolding adv_provisioning_work_handler_def by (intro keeps_intros app_intros)

lemma keeps_timer_ble_cb [app_intros]: "keeps (app_ok e) timer_ble_cb"
  unfolding timer_ble_cb_def by (intro keeps_intros app_intros)

lemma keeps_timer_cb [app_intros]: "keeps (app_ok e) timer_cb"
  unfolding timer_cb_def by (intro keeps_intros app_intros)

lemma keeps_connected_cb [app_intros]: "keeps (app_ok e) connected_cb"
  unfolding connected_cb_def by (intro keeps_intros app_intros)

lemma keeps_disconnected_cb [app_intros]: "keeps (app_ok e) disconnected_cb"
  unfolding disconnected_cb_def by (intro keeps_intros app_intros)

section \<open>The write callback\<close>

lemma keeps_add_passes [app_intros]: "keeps (app_ok e) (add_passes (sat_pass_add e) ps)"
proof (induction ps)
  case Nil
  show ?case by (simp add: keeps_return)
next
  case (Cons p ps)
  then show ?case by (subst add_passes.simps) (intro keeps_intros app_intros)
qed

lemma keeps_ephemeris_cmd [app_intros]:
  "len = length req \<Longrightarrow> keeps (app_ok e) (set_ephemeris_cmd e req len)"
  using keeps_add_passes [of e]
  by (auto simp: set_ephemeris_cmd_def keeps_def ephemeris_loop_eq [of e _ "drop 6 req", simplified])

lemma keeps_utc_cmd [app_intros]: "keeps (app_ok e) (set_utc_cmd e req)"
  unfolding set_utc_cmd_def
  by (intro keeps_intros app_intros keeps_modify) (simp_all add: app_ok_defs)

lemma keeps_read_byte: "i < length buf \<Longrightarrow> keeps I (read_byte e buf i)"
  by (simp add: read_byte_def keeps_return)

lemma keeps_chr_write [app_intros]:
  "2 \<le> length req \<Longrightarrow> keeps (app_ok e) (chr_write_cb e req flags)"
  unfolding chr_write_cb_def Let_def
  by (intro keeps_intros app_intros keeps_read_byte) auto

section \<open>The shell\<close>

lemma keeps_shell_print [app_intros]: "keeps (app_ok e) (shell_print f as)"
  unfolding shell_print_def by (intro keeps_intros app_intros)

lemma keeps_argv_text [app_intros]: "i < length argv \<Longrightarrow> keeps (app_ok e) (argv_text argv i)"
  unfolding argv_text_def by (intro keeps_intros app_intros)

lemma keeps_cmd_retransmission [app_intros]: "keeps (app_ok e) (cmd_retransmission argv)"
  unfolding cmd_retransmission_def Let_def
  by (intro keeps_intros app_intros uint_le_unat)

lemma keeps_cmd_payload [app_intros]:
  assumes "headers_ok e" and "2 \<le> length argv"
  shows "keeps (app_ok e) (cmd_payload e argv)"
proof -
  have "keeps (app_ok e) (cmd_payload_set e argv)"
    unfolding cmd_payload_set_def Let_def using assms
    by (intro keeps_intros app_intros payload_type_channel payload_type_custom) simp_all
  with assms(2) show ?thesis
    unfolding cmd_payload_def by (intro keeps_intros app_intros) simp_all
qed

lemma keeps_cmd_sensor [app_intros]: "keeps (app_ok e) (cmd_sensor e argv)"
  unfolding cmd_sensor_def
  by (intro keeps_intros app_intros keeps_logs [OF logs_sensor_data_get]) simp

lemma keeps_print_timestamps [app_intros]: "keeps (app_ok e) (print_timestamps ts)"
  by (induction ts) (auto intro!: keeps_intros app_intros)

lemma keeps_cmd_status [app_intros]: "keeps (app_ok e) (cmd_status e)"
  unfolding cmd_status_def status_report_def sat_is_transmitting_def crypto_key_is_set_def
  by (intro keeps_intros app_intros)

lemma keeps_cmd_time [app_intros]: "keeps (app_ok e) (cmd_time e)"
  unfolding cmd_time_def by (intro keeps_intros app_intros)

lemma keeps_cmd_key [app_intros]: "keeps (app_ok e) (cmd_key e argv)"
  unfolding cmd_key_def by (intro keeps_intros app_intros)

lemma keeps_cmd_ble [app_intros]: "keeps (app_ok e) (cmd_ble e argv)"
  unfolding cmd_ble_def by (intro keeps_intros app_intros) simp

lemma keeps_shell_command:
  assumes "headers_ok e" and "shell_command e argv = Some m"
    and "hd argv \<noteq> ''payload'' \<or> 2 \<le> length argv"
  shows "keeps (app_ok e) m"
proof -
  have "m \<in> {cmd_retransmission argv, cmd_key e argv, cmd_status e, cmd_time e,
      cmd_sensor e argv, cmd_ble e argv} \<or> m = cmd_payload e argv \<and> 2 \<le> length argv"
    using assms(2,3) by (auto simp: shell_command_def split: if_splits)
  with assms(1) show ?thesis
    by (auto intro!: app_intros)
qed

end
