(* ===== verification/Sample.thy ===== *)
theory Sample
  imports App_Inv
begin

text \<open>
  A concrete platform and concrete states of the application core. They show that the
  hypotheses of the properties can hold together: the clock of \<open>sample_env\<close> advances by
  what the program sleeps, its NVS stores what is written, its SDK accepts every packet
  and predicts a pass one minute ahead.
\<close>

section \<open>The platform\<close>

definition seconds_slept :: "call list \<Rightarrow> nat" where
  "seconds_slept cs = sum_list (map (\<lambda>c. case c of Sleep n \<Rightarrow> n | _ \<Rightarrow> 0) cs)"

fun last_write :: "nat \<Rightarrow> call list \<Rightarrow> bytes option" where
  "last_write i [] = None"
| "last_write i (c # cs) = (case c of
     Nvs_write j d \<Rightarrow> if j = i then Some d else last_write i cs
   | Nvs_delete j \<Rightarrow> if j = i then None else last_write i cs
   | _ \<Rightarrow> last_write i cs)"

definition nvs_read_reply :: "(int \<times> bytes) reply" where
  "nvs_read_reply h = (case rev h of
     Nvs_read i n # cs \<Rightarrow> (case last_write i cs of
        Some d \<Rightarrow> (int (length d), take n d) | None \<Rightarrow> (- ENOENT, []))
   | _ \<Rightarrow> (- ENOENT, []))"

definition nvs_write_reply :: "int reply" where
  "nvs_write_reply h = (case last h of Nvs_write i d \<Rightarrow> int (length d) | _ \<Rightarrow> - EINVAL)"

definition next_pass_reply :: "(int \<times> hubble_sat_pass_info option) reply" where
  "next_pass_reply h = (case last h of
     Next_pass_get t pos \<Rightarrow>
       if t < 2 ^ 62
       then (0, Some \<lparr>pass_start = t + 60000, pass_duration = 300000\<rparr>)
       else (- 1, None)
   | _ \<Rightarrow> (- 1, None))"

definition packet_get_reply :: "(int \<times> bytes) reply" where
  "packet_get_reply h = (case last h of Packet_get buf n \<Rightarrow> (0, take n buf) | _ \<Rightarrow> (- EINVAL, []))"

definition base64_reply :: "(int \<times> bytes) reply" where
  "base64_reply h = (case last h of
     Base64_decode n txt \<Rightarrow> (0, map of_char (take n txt)) | _ \<Rightarrow> (- EINVAL, []))"

definition sample_env :: env where
  "sample_env = \<lparr>
     cfg_pass_prediction = False, cfg_fuel_gauge = True, cfg_blink_led = True,
     cfg_retransmission = 4, cfg_adv_frequency = 28800, cfg_device_key = '''',
     cfg_key_size = 32, cfg_device_name = [],
     PAYLOAD_MAX = 13, CHAN_AMBIENT_TEMP = 13, CHAN_PRESS = 14, CHAN_HUMIDITY = 16,
     CHAN_GAUGE_VOLTAGE = 40, CHAN_MAX = 60, EALREADY = 120, ATT_ERR_LEN = - 13,
     WRITE_FLAG_PREPARE = 1, HUBBLE_BLE_UUID = 0xFCA6, NVS_PARTITION_SIZE = 8192,
     NVS_PARTITION_OFFSET = 0,
     o_ipc_open = (\<lambda>_. 0), o_ipc_register = (\<lambda>_. 0), o_ipc_deregister = (\<lambda>_. 0),
     o_ipc_close = (\<lambda>_. 0), o_ipc_send = (\<lambda>_. 4), o_sem_take = (\<lambda>_. 0),
     o_uptime = (\<lambda>h. 1000 * int (seconds_slept h)),
     o_bt_enable = (\<lambda>_. 0), o_bt_is_ready = (\<lambda>_. True), o_adv_start = (\<lambda>_. 0),
     o_hubble_init = (\<lambda>_. 0), o_time_get = (\<lambda>_. 1000000), o_satellites_set = (\<lambda>_. 0),
     o_next_pass = next_pass_reply, o_packet_get = packet_get_reply,
     o_packet_send = (\<lambda>_. 0), o_advertise_get = (\<lambda>_. (0, [])),
     o_base64 = base64_reply, o_nvs_read = nvs_read_reply, o_nvs_write = nvs_write_reply,
     o_nvs_mount = (\<lambda>_. 0), o_flash_ready = (\<lambda>_. True), o_flash_info = (\<lambda>_. (0, 4096)),
     o_sensor_ready = (\<lambda>_. True), o_sensor_fetch = (\<lambda>_. 0),
     o_sensor_get = (\<lambda>_. (0, \<lparr>val1 = 21, val2 = 500000\<rparr>)),
     o_fuel_gauge = (\<lambda>_. (0, 87, 3900000)), o_gpio_ready = (\<lambda>_. True),
     o_gpio_configure = (\<lambda>_. 0), o_gpio_interrupt = (\<lambda>_. 0), o_stray_byte = (\<lambda>_. 0)
   \<rparr>"

definition predicting_env :: env where
  "predicting_env = sample_env\<lparr>cfg_pass_prediction := True\<rparr>"

lemma headers_ok_sample: "headers_ok sample_env"
  by (simp add: headers_ok_def sample_env_def CUSTOM_def)

lemma headers_ok_predicting: "headers_ok predicting_env"
  by (simp add: headers_ok_def predicting_env_def sample_env_def CUSTOM_def)

lemma clock_ok_sample: "clock_ok sample_env"
  by (simp add: clock_ok_def sample_env_def seconds_slept_def)

lemma nvs_last_sample: "nvs_last sample_env i cs = last_write i cs"
  by (induction cs) (auto simp: sample_env_def nvs_write_reply_def split: call.splits)

lemma nvs_ok_sample: "nvs_ok sample_env"
  unfolding nvs_ok_def nvs_last_sample
  by (simp add: sample_env_def nvs_read_reply_def)

lemma sdk_passes_ok_predicting: "sdk_passes_ok predicting_env 300000"
proof -
  have *: "unat t < 18446744073709191616 \<and> unat (t + 60000) = unat t + 60000"
    if "t < 2 ^ 62" for t :: u64
    using that by (simp add: word_less_nat_alt unat_word_ariths)
  then show ?thesis
    by (auto simp: sdk_passes_ok_def predicting_env_def sample_env_def next_pass_reply_def
        dest: * split: if_splits)
qed

text \<open>The fields of the two platforms, so that proofs about them need not unfold them.\<close>

lemma sample_env_fields [simp]:
  "cfg_pass_prediction sample_env = False" "cfg_fuel_gauge sample_env = True"
  "cfg_blink_led sample_env = True" "cfg_retransmission sample_env = 4"
  "cfg_adv_frequency sample_env = 28800" "cfg_device_key sample_env = []"
  "cfg_key_size sample_env = 32" "cfg_device_name sample_env = []"
  "PAYLOAD_MAX sample_env = 13" "CHAN_AMBIENT_TEMP sample_env = 13"
  "CHAN_PRESS sample_env = 14" "CHAN_HUMIDITY sample_env = 16"
  "CHAN_GAUGE_VOLTAGE sample_env = 40" "CHAN_MAX sample_env = 60" "EALREADY sample_env = 120"
  "WRITE_FLAG_PREPARE sample_env = 1" "ATT_ERR_LEN sample_env = - 13"
  "o_time_get sample_env = (\<lambda>_. 1000000)"
  "o_uptime sample_env = (\<lambda>h. 1000 * int (seconds_slept h))"
  "o_packet_send sample_env = (\<lambda>_. 0)" "o_packet_get sample_env = packet_get_reply"
  "o_base64 sample_env = base64_reply" "o_next_pass sample_env = next_pass_reply"
  "o_bt_enable sample_env = (\<lambda>_. 0)" "o_bt_is_ready sample_env = (\<lambda>_. True)"
  "o_fuel_gauge sample_env = (\<lambda>_. (0, 87, 3900000))"
  "o_sem_take sample_env = (\<lambda>_. 0)" "o_ipc_send sample_env = (\<lambda>_. 4)"
  "o_nvs_write sample_env = nvs_write_reply" "o_nvs_read sample_env = nvs_read_reply"
  by (simp_all add: sample_env_def)

lemma sample_sensor [simp]:
  "o_sensor_ready sample_env = (\<lambda>_. True)" "o_sensor_fetch sample_env = (\<lambda>_. 0)"
  "o_sensor_get sample_env = (\<lambda>_. (0, \<lparr>val1 = 21, val2 = 500000\<rparr>))"
  by (simp_all add: sample_env_def)

lemma predicting_env_fields [simp]:
  "cfg_pass_prediction predicting_env = True" "cfg_fuel_gauge predicting_env = True"
  "cfg_blink_led predicting_env = True" "cfg_retransmission predicting_env = 4"
  "cfg_adv_frequency predicting_env = 28800" "cfg_device_key predicting_env = []"
  "cfg_key_size predicting_env = 32" "cfg_device_name predicting_env = []"
  "PAYLOAD_MAX predicting_env = 13" "CHAN_AMBIENT_TEMP predicting_env = 13"
  "CHAN_PRESS predicting_env = 14" "CHAN_HUMIDITY predicting_env = 16"
  "CHAN_GAUGE_VOLTAGE predicting_env = 40" "CHAN_MAX predicting_env = 60"
  "EALREADY predicting_env = 120" "WRITE_FLAG_PREPARE predicting_env = 1"
  "ATT_ERR_LEN predicting_env = - 13" "o_time_get predicting_env = (\<lambda>_. 1000000)"
  "o_uptime predicting_env = (\<lambda>h. 1000 * int (seconds_slept h))"
  "o_packet_send predicting_env = (\<lambda>_. 0)"
  "o_packet_get predicting_env = packet_get_reply" "o_base64 predicting_env = base64_reply"
  "o_next_pass predicting_env = next_pass_reply" "o_bt_enable predicting_env = (\<lambda>_. 0)"
  "o_bt_is_ready predicting_env = (\<lambda>_. True)"
  "o_fuel_gauge predicting_env = (\<lambda>_. (0, 87, 3900000))"
  "o_sem_take predicting_env = (\<lambda>_. 0)" "o_ipc_send predicting_env = (\<lambda>_. 4)"
  "o_nvs_write predicting_env = nvs_write_reply" "o_nvs_read predicting_env = nvs_read_reply"
  by (simp_all add: predicting_env_def)

section \<open>States\<close>

definition pass_at :: "u32 \<Rightarrow> u16 \<Rightarrow> sat_pass" where
  "pass_at t d = \<lparr>sp_timestamp = t, sp_duration = d\<rparr>"

definition no_pass :: sat_pass where
  "no_pass = pass_at 0 0"

text \<open>Three passes in the table: one in the past, two in the future of second 1000.\<close>

definition sample_state :: ble_state where
  "sample_state = \<lparr>
     calls = [], fault = False,
     g_power = 0, g_retransmission_frequency_s = 4,
     g_custom_payload_buffer = replicate 13 0, g_custom_payload_size = 0,
     g_payload_type = 13, g_transmitting = False,
     g_next_pass = \<lparr>pass_start = 0, pass_duration = 0\<rparr>,
     g_device_pos = \<lparr>lat = 0, lon = 0\<rparr>,
     g_sat_passes_idx = 0, g_sat_passes_count = 3,
     g_sat_passes = [pass_at 900 60, pass_at 2000 60, pass_at 3000 90] @ replicate 297 no_pass,
     fs_offset = 0, fs_sector_size = 0, fs_sector_count = 0,
     g_hubble_key = replicate 32 0,
     g_utc_time = 5, g_ble_off_by_user = False, g_app_ad = app_ad_init
   \<rparr>"

lemma app_ok_sample: "app_ok sample_env sample_state"
  by (simp add: app_ok_defs sample_state_def sample_env_def app_ad_init_def payload_type_ok_def
      payload_enumerators_def payload_type_defs HUBBLE_NUMBER_OF_TIMESTAMPS_def)

lemma app_ok_predicting: "app_ok predicting_env sample_state"
  by (simp add: app_ok_defs sample_state_def predicting_env_def sample_env_def app_ad_init_def
      payload_type_ok_def payload_enumerators_def payload_type_defs HUBBLE_NUMBER_OF_TIMESTAMPS_def)

lemma queue_ok_sample: "queue_ok sample_env sample_state"
  using app_ok_sample by (simp add: app_ok_def queue_ok_def sample_env_def)

lemma board_ok_sample: "board_ok sample_env sample_state"
  using app_ok_sample by (simp add: app_ok_def)

lemma pending_sample:
  "pending sample_state = [pass_at 900 60, pass_at 2000 60, pass_at 3000 90]"
  by (simp add: pending_def sample_state_def)

text \<open>The fields of the sample state, so that proofs about it need not unfold it.\<close>

lemma sample_state_fields [simp]:
  "calls sample_state = []" "fault sample_state = False"
  "g_retransmission_frequency_s sample_state = 4"
  "g_custom_payload_buffer sample_state = replicate 13 0"
  "g_payload_type sample_state = 13" "g_transmitting sample_state = False"
  "g_device_pos sample_state = \<lparr>lat = 0, lon = 0\<rparr>"
  "g_hubble_key sample_state = replicate 32 0" "g_utc_time sample_state = 5"
  "g_ble_off_by_user sample_state = False"
  by (simp_all add: sample_state_def)

lemma pass_at_fields [simp]: "sp_timestamp (pass_at t d) = t" "sp_duration (pass_at t d) = d"
  by (simp_all add: pass_at_def)

text \<open>The sample clock reads second 1000.\<close>

lemma schedule_now_sample: "schedule_now sample_env s = 1000"
  by (simp add: schedule_now_def sample_env_def MSEC_PER_SEC_def)

lemma is_past_sample: "is_past 1000 (pass_at t d) \<longleftrightarrow> unat t \<le> 1000"
  by (simp add: is_past_iff)

end
