(* ===== verification/Sat_Properties.thy ===== *)
theory Sat_Properties
  imports Sample
begin

text \<open>
  The properties of \<^verbatim>\<open>app/src/sat_board.c\<close>: the schedule of satellite windows, the
  payload of a packet and the transmission of a window.
\<close>

text \<open>Rounding milliseconds down to the seconds of a timer.\<close>

lemma div_1000_bounds:
  fixes n :: nat
  shows "1000 * (n div 1000) \<le> n" "n < 1000 * (n div 1000) + 1000"
  using div_mult_mod_eq [of n 1000] mod_less_divisor [of 1000 n] by linarith+

lemma timer_seconds_bounds:
  fixes w :: nat
  assumes "w < 1000 * 2 ^ 32"
  shows "1000 * (w div 1000 mod 2 ^ 32) \<le> w \<and> w < 1000 * (w div 1000 mod 2 ^ 32) + 1000"
proof -
  have "w div 1000 mod 2 ^ 32 = w div 1000" using assms by simp
  with div_1000_bounds [of w] show ?thesis by simp
qed

section \<open>The schedule\<close>

text \<open>C7: In the timestamp build, scheduling the next transmission drops from the queue of
  pending passes exactly the ones that have begun, fails with -1 exactly when none is left,
  and otherwise arms the one-shot satellite timer with the seconds that remain until the
  pass that is now first.\<close>

theorem schedule_refines_queue:
  fixes s :: "'a sat_state_scheme" and fuel :: nat
  assumes "queue_ok e s"
  defines "s' \<equiv> exec (sat_schedule_next_transmission e fuel) s"
    and "q \<equiv> dropWhile (is_past (schedule_now e s)) (pending s)"
  shows "pending s' = q \<and> queue_ok e s' \<and>
    result (sat_schedule_next_transmission e fuel) s = Some (if q = [] then - 1 else 0) \<and>
    calls s' = calls s @ Hubble_time_get #
      (if q = [] then []
       else [Timer_start Sat_timer (unat (sp_timestamp (hd q)) - unat (schedule_now e s)) 0])"
proof -
  note q = pass_table.schedule_queue [OF assms(1), of fuel, folded s'_def q_def]
  note r = pass_table.schedule_result [OF assms(1), of fuel, folded s'_def, unfolded q]
  have "calls s' = calls s @ [Hubble_time_get]" if "q = []"
    using r that unfolding s'_def by (rule_tac schedule_failed_log [OF assms(1)]) simp
  moreover have "calls s' = calls s @ [Hubble_time_get, Timer_start Sat_timer
      (unat (sp_timestamp (hd q)) - unat (schedule_now e s)) 0]" if "q \<noteq> []"
    using sat_schedule_table_timer(1) [OF assms(1), of fuel, folded s'_def, unfolded q] r that
    by simp
  ultimately show ?thesis
    using q r pass_table.schedule_inv [OF assms(1), of fuel, folded s'_def] by simp
qed

theorem schedule_refines_queue_witness:
  "pending (exec (sat_schedule_next_transmission sample_env 0) sample_state) =
     [pass_at 2000 60, pass_at 3000 90] \<and>
   calls (exec (sat_schedule_next_transmission sample_env 0) sample_state) =
     [Hubble_time_get, Timer_start Sat_timer 1000 0]"
  using schedule_refines_queue [OF queue_ok_sample, of 0]
  by (simp add: pending_sample is_past_sample schedule_now_sample)

text \<open>C18: When the table is in time order, the pass the scheduler arms is the earliest of
  the pending passes that have not begun, it lies strictly in the future, and the timer
  fires less than one second after its start and never before it.\<close>

theorem schedule_arms_earliest:
  fixes s :: "'a sat_state_scheme"
  assumes "queue_ok e s" and "sorted (map (unat \<circ> sp_timestamp) (pending s))"
    and "result (sat_schedule_next_transmission e fuel) s = Some 0"
  shows "\<exists>p T. p \<in> set (pending s) \<and>
    calls (exec (sat_schedule_next_transmission e fuel) s) =
      calls s @ [Hubble_time_get, Timer_start Sat_timer T 0] \<and> 0 < T \<and>
    (let now_ms = unat (o_time_get e (calls s @ [Hubble_time_get])) in
       1000 * unat (sp_timestamp p) \<le> now_ms + 1000 * T \<and>
       now_ms + 1000 * T < 1000 * unat (sp_timestamp p) + 1000 \<and>
       (\<forall>q \<in> set (pending s). now_ms < 1000 * unat (sp_timestamp q) \<longrightarrow>
          sp_timestamp p \<le> sp_timestamp q))"
proof -
  let ?s' = "exec (sat_schedule_next_transmission e fuel) s"
  let ?p = "hd (pending ?s')" and ?now = "unat (o_time_get e (calls s @ [Hubble_time_get]))"
  have sec: "unat (schedule_now e s) = ?now div 1000"
    by (simp add: schedule_now_def MSEC_PER_SEC_def unat_div)
  have small: "unat (schedule_now e s) < 2 ^ 64 - 1"
    using unat_bound [of "o_time_get e (calls s @ [Hubble_time_get])"] by (simp add: sec)
  note timer = sat_schedule_table_timer [OF assms(1,3)]
  have "?p \<in> set (pending ?s')"
    using pass_table.scheduled_is_future(1) [OF assms(1,3)] by simp
  then have mem: "?p \<in> set (pending s)"
    by (simp add: pass_table.schedule_queue [OF assms(1)] set_dropWhileD)
  have early: "sp_timestamp ?p \<le> sp_timestamp q"
    if "q \<in> set (pending s)" "?now < 1000 * unat (sp_timestamp q)" for q
    using pass_table.scheduled_is_earliest [OF assms(1,3,2) that(1)] that(2) small
    by (simp add: is_past_iff sec not_le less_mult_imp_div_less mult.commute)
  note div_le = div_1000_bounds [of ?now]
  show ?thesis
    using mem timer early
    unfolding Let_def
    by (intro exI [of _ ?p] exI [of _ "unat (sp_timestamp ?p) - unat (schedule_now e s)"]
        conjI ballI impI) (use div_le in \<open>simp_all add: sec\<close>)
qed

lemma sample_scheduled:
  "pending (exec (sat_schedule_next_transmission sample_env fuel) sample_state) =
     [pass_at 2000 60, pass_at 3000 90]"
  "result (sat_schedule_next_transmission sample_env fuel) sample_state = Some 0"
  using pass_table.schedule_queue [OF queue_ok_sample, of fuel]
    pass_table.schedule_result [OF queue_ok_sample, of fuel]
  by (simp_all add: pending_sample is_past_sample schedule_now_sample)

theorem schedule_arms_earliest_witness:
  "\<exists>T. calls (exec (sat_schedule_next_transmission sample_env 0) sample_state) =
     [Hubble_time_get, Timer_start Sat_timer T 0] \<and> 1000 \<le> T \<and> T < 2001"
  using schedule_arms_earliest [OF queue_ok_sample _ sample_scheduled(2), of 0]
  by (auto simp: pending_sample Let_def)

text \<open>In a table that is sorted, by start and then by duration, the armed pass is the least of
  the pending passes that have not begun.\<close>

theorem armed_pass_is_least:
  fixes s :: "'a sat_state_scheme"
  assumes "queue_ok e s" and "sorted (pending s)"
    and "result (sat_schedule_next_transmission e fuel) s = Some 0"
  shows "hd (pending (exec (sat_schedule_next_transmission e fuel) s)) =
    Min {p \<in> set (pending s). \<not> is_past (schedule_now e s) p}"
  using pass_table.scheduled_is_least [OF assms(1,3,2)] .

text \<open>The order matters: the scheduler takes the first pass of the table that has not begun,
  so on a table the companion filled out of order it arms a later one although an earlier one
  is pending.\<close>

definition unsorted_state :: ble_state where
  "unsorted_state = sample_state\<lparr>g_sat_passes := [pass_at 900 60, pass_at 5000 60, pass_at 2000 60] @
     replicate 297 no_pass\<rparr>"

theorem unsorted_table_arms_later:
  "queue_ok sample_env unsorted_state \<and>
   result (sat_schedule_next_transmission sample_env fuel) unsorted_state = Some 0 \<and>
   (\<exists>p \<in> set (pending unsorted_state). \<not> is_past (schedule_now sample_env unsorted_state) p \<and>
      p < hd (pending (exec (sat_schedule_next_transmission sample_env fuel) unsorted_state)))"
proof -
  have ok: "queue_ok sample_env unsorted_state"
    using queue_ok_sample by (simp add: queue_ok_def table_inv_def unsorted_state_def sample_state_def)
  have q: "pending unsorted_state = [pass_at 900 60, pass_at 5000 60, pass_at 2000 60]"
    by (simp add: pending_def unsorted_state_def sample_state_def)
  note sq = pass_table.schedule_queue [OF ok, of fuel] pass_table.schedule_result [OF ok, of fuel]
  have d: "pending (exec (sat_schedule_next_transmission sample_env fuel) unsorted_state) =
      [pass_at 5000 60, pass_at 2000 60]"
    by (simp add: sq(1) q is_past_sample schedule_now_sample)
  have "pass_at 2000 60 < pass_at 5000 60"
    by (simp add: less_sat_pass_ext_def less_eq_sat_pass_ext_def)
  with ok sq(2) show ?thesis
    by (auto simp: q d is_past_sample schedule_now_sample)
qed

text \<open>C21: The pass-prediction loop returns: with an SDK whose predictions end after the time
  asked about and last at most a given number of milliseconds, more rounds than that are
  never needed. It fails with -1, or stores a pass that starts strictly after the current
  time and arms the timer so that it fires at its start or less than one second before it
  (when the wait fits the 32-bit number of seconds).\<close>

theorem prediction_finds_future_pass:
  fixes s :: "'a sat_state_scheme"
  assumes "cfg_pass_prediction e" and "sdk_passes_ok e D" and "D < fuel"
  defines "m \<equiv> sat_schedule_next_transmission e fuel"
    and "now \<equiv> o_time_get e (calls s @ [Hubble_time_get])"
  shows "result m s = Some (- 1) \<or>
    result m s = Some 0 \<and> now < pass_start (g_next_pass (exec m s)) \<and>
    (let wait = unat (pass_start (g_next_pass (exec m s))) - unat now in
     \<exists>cs T. calls (exec m s) = calls s @ cs @ [Timer_start Sat_timer T 0] \<and>
       (wait < 1000 * 2 ^ 32 \<longrightarrow> 1000 * T \<le> wait \<and> wait < 1000 * T + 1000))"
proof -
  let ?s1 = "s\<lparr>calls := calls s @ [Hubble_time_get]\<rparr>"
  obtain r where r: "result (next_pass_loop e fuel now now) ?s1 = Some r"
    using next_pass_loop_ends [OF assms(2), of now now fuel ?s1] assms(3) by auto
  then have "r = 0 \<or> r = - 1" by (rule next_pass_loop_minus1)
  then have res: "result m s = Some 0 \<or> result m s = Some (- 1)"
    using r assms(1) by (auto simp: m_def now_def sat_schedule_next_transmission_def
        split: prod.splits)
  show ?thesis
  proof (cases "result m s = Some 0")
    case False
    with res show ?thesis by simp
  next
    case True
    note sp = sat_schedule_prediction_some [OF assms(1) True [unfolded m_def], folded m_def now_def]
    let ?w = "unat (pass_start (g_next_pass (exec m s))) - unat now"
    from timer_seconds_bounds [of ?w] True sp show ?thesis unfolding Let_def by blast
  qed
qed

theorem prediction_finds_future_pass_witness:
  "result (sat_schedule_next_transmission predicting_env 300001) sample_state \<noteq> None"
  using prediction_finds_future_pass [OF _ sdk_passes_ok_predicting, of 300001 sample_state]
  by auto

text \<open>Adding passes one after the other, as the write callback does, appends them to the
  pending queue in order until the table of 300 entries is full; the first one that does
  not fit is refused with -ENOSPC, and the table stays well formed throughout.\<close>

theorem passes_are_queued:
  fixes s :: "'a sat_state_scheme"
  assumes "queue_ok e s"
  defines "free \<equiv> 300 - unat (g_sat_passes_count s)"
  shows "pending (exec (add_passes (sat_pass_add e) ps) s) = pending s @ take free ps \<and>
    queue_ok e (exec (add_passes (sat_pass_add e) ps) s) \<and>
    result (sat_pass_add e t d) s = (if free = 0 then - ENOSPC else 0)"
  using pass_table.add_passes_queue [OF assms(1), of ps]
    pass_table.add_passes_inv [OF assms(1), of ps] pass_table.add_result [OF assms(1), of t d]
  by (simp add: free_def queue_room_def HUBBLE_NUMBER_OF_TIMESTAMPS_def)

theorem passes_are_queued_witness:
  "pending (exec (add_passes (sat_pass_add sample_env) [pass_at 4000 10]) sample_state) =
     [pass_at 900 60, pass_at 2000 60, pass_at 3000 90, pass_at 4000 10]"
  using passes_are_queued [OF queue_ok_sample, of "[pass_at 4000 10]"]
  by (simp add: pending_sample) (simp add: sample_state_def)

text \<open>In the timestamp build, what the shell is told of the schedule is the start times of
  the first pending passes, as many as it asked for and there are; right after a
  successful scheduling the first of them is the pass the timer is armed for.\<close>

theorem next_transmissions_listed:
  fixes s :: "'a sat_state_scheme" and fuel :: nat
  assumes "queue_ok e s"
  defines "s' \<equiv> exec (sat_schedule_next_transmission e fuel) s"
  shows "run_state (sat_next_transmission_get e n) s =
      ((int (min (unat n) (length (pending s))), map sp_timestamp (take (unat n) (pending s))), s) \<and>
    (result (sat_schedule_next_transmission e fuel) s = Some 0 \<longrightarrow> 0 < unat n \<longrightarrow>
      hd (snd (result (sat_next_transmission_get e n) s')) = sp_timestamp (hd (pending s')) \<and>
      \<not> is_past (schedule_now e s) (hd (pending s')))"
  using sat_next_transmission_table [OF assms(1)]
    pass_table.peek_after_schedule [OF assms(1), of fuel n]
    pass_table.scheduled_is_future(2) [OF assms(1), of fuel]
  by (simp add: s'_def)

theorem next_transmissions_listed_witness:
  "hd (snd (result (sat_next_transmission_get sample_env 4)
     (exec (sat_schedule_next_transmission sample_env 0) sample_state))) = 2000"
  using next_transmissions_listed [OF queue_ok_sample, of 4 0]
  by (simp add: sample_scheduled)

text \<open>C36: The table of passes is never emptied: scheduling frees no entry, so after 300 passes
  in all every later one is refused with -ENOSPC, even when all of them are past.\<close>

theorem table_never_reclaimed:
  fixes s :: "'a sat_state_scheme"
  assumes "queue_ok e s" and "300 \<le> unat (g_sat_passes_count s)"
  shows "let s' = exec (sat_schedule_next_transmission e fuel) s in
    g_sat_passes_count s' = g_sat_passes_count s \<and> run_state (sat_pass_add e t d) s' = (- ENOSPC, s')"
proof -
  let ?s' = "exec (sat_schedule_next_transmission e fuel) s"
  have c: "g_sat_passes_count ?s' = g_sat_passes_count s"
    using assms(1) by (auto simp: sat_schedule_next_transmission_def queue_ok_def arm_sat_timer_def
        split: prod.splits)
  then have "queue_room ?s' = 0"
    using assms(2) by (simp add: queue_room_def HUBBLE_NUMBER_OF_TIMESTAMPS_def)
  with c sat_pass_add_full [OF pass_table.schedule_inv [OF assms(1)]] show ?thesis by simp
qed

definition full_state :: ble_state where
  "full_state = sample_state\<lparr>g_sat_passes_count := 300\<rparr>"

theorem table_never_reclaimed_witness:
  "result (sat_pass_add sample_env 5 5) (exec (sat_schedule_next_transmission sample_env 0) full_state)
     = - ENOSPC"
proof -
  have "queue_ok sample_env full_state" "300 \<le> unat (g_sat_passes_count full_state)"
    using queue_ok_sample by (simp_all add: full_state_def queue_ok_def table_inv_def
        HUBBLE_NUMBER_OF_TIMESTAMPS_def word_le_nat_alt)
  from table_never_reclaimed [OF this, of 0 5 5] show ?thesis by (simp add: Let_def)
qed

section \<open>The payload\<close>

text \<open>Building the payload stays inside the payload buffer and the custom buffer, for every
  payload type and every answer of the sensors: it changes nothing but the log, reads only
  the selected source, and hands on a full buffer whose first byte identifies the source
  and a length the packet encoder accepts.\<close>

theorem payload_in_bounds:
  fixes s :: "'a sat_state_scheme"
  assumes "headers_ok e" and "board_ok e s"
  shows "\<exists>buf len cs.
    run_state (sat_payload_build e) s = ((buf, len), s\<lparr>calls := calls s @ cs\<rparr>) \<and>
    list_all is_payload_read cs \<and> length buf = PAYLOAD_MAX e \<and>
    nearest_packet_len_get len \<in> {0, 4, 13, PAYLOAD_MAX e} \<and>
    nearest_packet_len_get len \<le> length buf \<and>
    (cfg_fuel_gauge e \<longrightarrow> hd buf = channel_to_hubble e (g_payload_type s))"
proof -
  have "13 \<le> PAYLOAD_MAX e" using assms(1) by (simp add: headers_ok_def)
  with sat_payload_build_run [OF assms] show ?thesis by fastforce
qed

theorem payload_in_bounds_witness:
  "\<exists>buf len cs. run_state (sat_payload_build sample_env) sample_state =
     ((buf, len), sample_state\<lparr>calls := cs\<rparr>) \<and> length buf = 13 \<and> hd buf = 1"
  using payload_in_bounds [OF headers_ok_sample board_ok_sample]
  by (auto simp: channel_to_hubble_def)

lemma blit_1_fields:
  assumes "length buf = n" and "9 \<le> n"
  shows "take 4 (drop 1 (blit buf 1 (sensor_bytes v))) = le_bytes 4 (unat (val1 v))"
    and "take 4 (drop 5 (blit buf 1 (sensor_bytes v))) = le_bytes 4 (unat (val2 v))"
  using assms by (simp_all add: blit_def sensor_bytes_def)

text \<open>A sensor reading survives the packet: when the sensor answers, the receiver finds the
  identifier of the channel in the first byte and both 32-bit halves of the reading in
  the eight bytes after it, in a packet of 13 bytes.\<close>

theorem payload_carries_reading:
  fixes s :: "'a sat_state_scheme"
  assumes "headers_ok e" and "cfg_fuel_gauge e"
    and "g_payload_type s \<notin> {CUSTOM, GAUGE_VOLTAGE e}"
    and "result (sensor_data_get e (g_payload_type s)) s = Inr v"
  shows "case result (sat_payload_build e) s of (buf, len) \<Rightarrow>
    nearest_packet_len_get len = 13 \<and> hd buf = channel_to_hubble e (g_payload_type s) \<and>
    le_word (take 4 (drop 1 buf)) = val1 v \<and> le_word (take 4 (drop 5 buf)) = val2 v"
proof -
  let ?buf = "(replicate (PAYLOAD_MAX e) 0)[0 := channel_to_hubble e (g_payload_type s)]"
  have sz: "13 \<le> PAYLOAD_MAX e" "length ?buf = PAYLOAD_MAX e" "?buf \<noteq> []"
    "hd ?buf = channel_to_hubble e (g_payload_type s)"
    using assms(1) by (auto simp: headers_ok_def hd_conv_nth)
  obtain r cs where "run_state (sensor_data_get e (g_payload_type s)) s =
      (r, s\<lparr>calls := calls s @ cs\<rparr>)"
    using logs_sensor_data_get by (rule logsE)
  with assms(4) have q: "run_state (sensor_data_get e (g_payload_type s)) s =
      (Inr v, s\<lparr>calls := calls s @ cs\<rparr>)" by simp
  have "result (sat_payload_build e) s = (blit ?buf 1 (sensor_bytes v), 9)"
    using assms(2,3) q sz by (simp add: sat_payload_build_def Let_def)
  with sz blit_1_fields [OF sz(2), of v] show ?thesis
    by (simp add: hd_blit_1 nearest_packet_len_get_def)
qed

theorem payload_carries_reading_witness:
  "hd (fst (result (sat_payload_build sample_env) sample_state)) = 1"
  using payload_carries_reading [OF headers_ok_sample, of sample_state "\<lparr>val1 = 21, val2 = 500000\<rparr>"]
  by (simp add: CUSTOM_def GAUGE_VOLTAGE_def sensor_data_get_def channel_to_hubble_def
      sample_sensor split: prod.splits)

text \<open>The length given to the packet encoder: nothing stays nothing, a length below 13 goes
  up to the next of 4, 9 and 13 that is strictly larger, so a payload of exactly 4 or 9
  bytes is padded although the encoder has a packet of its length, and 13 or more stays.\<close>

theorem packet_length_rounds_up:
  "nearest_packet_len_get 0 = 0 \<and>
   (0 < n \<and> n < 13 \<longrightarrow> nearest_packet_len_get n = Min {l \<in> {4, 9, 13}. n < l}) \<and>
   (13 \<le> n \<longrightarrow> nearest_packet_len_get n = n)"
proof -
  have "{l \<in> {4, 9, 13}. n < l} = (if n < 4 then {4, 9, 13} else if n < 9 then {9, 13}
      else if n < 13 then {13} else {})" for n :: nat by auto
  then show ?thesis by (simp add: nearest_packet_len_get_def)
qed

theorem packet_length_rounds_up_witness:
  "nearest_packet_len_get 9 = 13 \<and> nearest_packet_len_get 4 = 9 \<and> nearest_packet_len_get 20 = 20"
proof -
  have "{l \<in> {4, 9, 13}. 9 < l} = {13 :: nat}" "{l \<in> {4, 9, 13}. 4 < l} = {9, 13 :: nat}" by auto
  then show ?thesis
    using packet_length_rounds_up [of 9] packet_length_rounds_up [of 4]
      packet_length_rounds_up [of 20] by simp
qed

section \<open>The transmission\<close>



text \<open>C31: In the pass-prediction build a transmission always returns, and sends the packet it
  built exactly once, with normal reliability; the transmitter reports that it is idle
  again exactly when the send succeeded. After a failed send the flag stays set and
  nothing stops the LED.\<close>

theorem transmit_once_when_predicting:
  fixes s :: "'a sat_state_scheme" and fuel :: nat
  assumes "headers_ok e" and "board_ok e s" and "cfg_pass_prediction e"
  shows "\<exists>pre rp pkt. o_packet_get e (calls s @ pre) = (rp, pkt) \<and>
    (rp \<noteq> 0 \<longrightarrow> run_state (sat_transmit e fuel) s = (Some rp, s\<lparr>calls := calls s @ pre\<rparr>)) \<and>
    (rp = 0 \<longrightarrow> (\<exists>r ls ts. list_all starts_led ls \<and> list_all is_led ts \<and>
       r = o_packet_send e (calls s @ pre @ ls @ [Packet_send pkt RELIABILITY_NORMAL]) \<and>
       run_state (sat_transmit e fuel) s =
         (Some r, s\<lparr>calls := calls s @ pre @ ls @ [Packet_send pkt RELIABILITY_NORMAL] @
            (if r = 0 then ts else []), g_transmitting := (r \<noteq> 0)\<rparr>)))"
proof -
  obtain buf len cs rp pkt where t:
    "o_packet_get e (calls s @ cs @ [Packet_get buf len]) = (rp, pkt)"
    "run_state (sat_transmit e fuel) s =
       (if rp \<noteq> 0 then (Some rp, s\<lparr>calls := calls s @ cs @ [Packet_get buf len]\<rparr>)
        else run_state (transmit_packet e fuel pkt)
               (s\<lparr>calls := calls s @ cs @ [Packet_get buf len]\<rparr>))"
    using sat_transmit_run [OF assms(1,2)] by blast
  let ?pre = "cs @ [Packet_get buf len]"
  let ?s = "s\<lparr>calls := calls s @ ?pre\<rparr>"
  obtain ls ts r where "list_all starts_led ls" "list_all is_led ts"
      "r = o_packet_send e (calls ?s @ ls @ [Packet_send pkt RELIABILITY_NORMAL])"
      "run_state (transmit_packet e fuel pkt) ?s =
        (Some r, ?s\<lparr>calls := calls ?s @ ls @ [Packet_send pkt RELIABILITY_NORMAL] @
                   (if r = 0 then ts else []), g_transmitting := (r \<noteq> 0)\<rparr>)"
    by (rule transmit_packet_prediction [OF assms(3)])
  with t show ?thesis
    by (intro exI [of _ ?pre] exI [of _ rp] exI [of _ pkt]) auto
qed

theorem transmit_once_when_predicting_witness:
  "result (sat_transmit predicting_env 0) sample_state \<noteq> None"
proof -
  have "board_ok predicting_env sample_state" using app_ok_predicting by (simp add: app_ok_def)
  from transmit_once_when_predicting [OF headers_ok_predicting this, of 0]
  show ?thesis by auto
qed

end
