(* ===== verification/Button.thy ===== *)
theory Button
  imports Ble
begin

text \<open>
  \<^verbatim>\<open>app/src/button.c\<close>: the button interrupt, the work item that toggles Bluetooth, and
  the initialisation of both.
\<close>

definition button_pressed_worker :: "env \<Rightarrow> ('a ble_state_scheme, unit) state" where
  "button_pressed_worker e = do {
     ready \<leftarrow> ask (o_bt_is_ready e) Bt_is_ready;
     if \<not> ready then ble_enable e True else ble_disable True
   }"

definition button_pressed :: "('a world_scheme, unit) state" where
  "button_pressed = tell (Work_submit Button_work)"

definition button_init :: "env \<Rightarrow> ('a world_scheme, int) state" where
  "button_init e = do {
     ready \<leftarrow> ask (o_gpio_ready e) (Gpio_ready Button_pin);
     if \<not> ready then ret (- 1)
     else do {
       r \<leftarrow> ask (o_gpio_configure e) (Gpio_configure Button_pin GPIO_INPUT);
       if r \<noteq> 0 then ret r
       else do {
         r \<leftarrow> ask (o_gpio_interrupt e) (Gpio_interrupt Button_pin);
         if r \<noteq> 0 then ret r
         else do {
           tell (Gpio_add_callback Button_pin);
           tell (Work_init Button_work);
           ret r
         }
       }
     }
   }"

text \<open>Both branches of the worker record the user's choice.\<close>

lemma ble_enable_user: "g_ble_off_by_user (exec (ble_enable e True) s) = False"
  by (simp add: ble_enable_def ble_enable_body_def ble_init_def ble_adv_start_def
      split: prod.splits)

lemma ble_disable_user: "g_ble_off_by_user (exec (ble_disable True) s) = True"
  by (simp add: ble_disable_def ble_adv_stop_def)

lemma button_toggles:
  "g_ble_off_by_user (exec (button_pressed_worker e) s) =
     o_bt_is_ready e (calls s @ [Bt_is_ready])"
  using ble_enable_user [of e "s\<lparr>calls := calls s @ [Bt_is_ready]\<rparr>"]
    ble_disable_user [of "s\<lparr>calls := calls s @ [Bt_is_ready]\<rparr>"]
  by (simp add: button_pressed_worker_def)

end
