(* ===== verification/App_Main.thy ===== *)
theory App_Main
  imports App_Inv Button
begin

text \<open>
  \<^verbatim>\<open>app/src/main.c\<close>: switching the network core between the two radio stacks, and the
  \<^verbatim>\<open>main\<close> function. \<^verbatim>\<open>main\<close> is cut at the points where another thread may run in
  between, into the segments \<open>main_step\<close> executes; each segment ends by naming the next.
\<close>

section \<open>The mark\<close>

text \<open>
  The word at \<^verbatim>\<open>HUBBLE_SAT_MARK\<close> is in memory the two cores share, so a write is logged like a
  call. \<open>mark_after v cs\<close> is what the word holds after some calls, from the value \<open>v\<close>.
\<close>

definition cpunet_stack_mark :: "u32 \<Rightarrow> ('a world_scheme, unit) state" where
  "cpunet_stack_mark val = tell (Mark_write val)"

fun mark_after :: "u32 \<Rightarrow> call list \<Rightarrow> u32" where
  "mark_after v [] = v"
| "mark_after v (c # cs) = mark_after (case c of Mark_write w \<Rightarrow> w | _ \<Rightarrow> v) cs"

lemma mark_after_append [simp]: "mark_after v (cs @ ds) = mark_after (mark_after v cs) ds"
  by (induction v cs rule: mark_after.induct) auto

section \<open>The satellite stack of the network core\<close>

text \<open>
  \<^verbatim>\<open>_sat_enable\<close> up to its wait for the endpoint: an early return, or nothing. Then the
  wait and the first message.
\<close>

definition sat_endpoint_open :: "env \<Rightarrow> ('a world_scheme, int option) state" where
  "sat_endpoint_open e = do {
     cpunet_stack_mark 0;
     tell (Cpunet_enable True);
     err \<leftarrow> ask (o_ipc_open e) Ipc_open;
     if err < 0 \<and> err \<noteq> - EALREADY e then ret (Some err)
     else do {
       err \<leftarrow> ask (o_ipc_register e) Ipc_register;
       ret (if err < 0 then Some err else None)
     }
   }"

definition sat_endpoint_init :: "env \<Rightarrow> ('a world_scheme, int) state" where
  "sat_endpoint_init e = do {
     tell (Sem_take Bound_sem Forever);
     ipc_send e (base_msg SAT_CMD_INIT)
   }"

definition sat_enable :: "env \<Rightarrow> ('a world_scheme, int) state" where
  "sat_enable e = do {
     r \<leftarrow> sat_endpoint_open e;
     (case r of Some err \<Rightarrow> ret err | None \<Rightarrow> sat_endpoint_init e)
   }"

definition sat_disable :: "env \<Rightarrow> ('a world_scheme, int) state" where
  "sat_disable e = do {
     err \<leftarrow> ask (o_ipc_deregister e) Ipc_deregister;
     if err \<noteq> 0 then ret err
     else do {
       err \<leftarrow> ask (o_ipc_close e) Ipc_close;
       if err \<noteq> 0 then ret err
       else do {
         tell (Cpunet_enable False);
         ret 0
       }
     }
   }"

section \<open>The segments of main\<close>

text \<open>
  Where the main thread is: before its first statement; waiting for the semaphore of the
  time, of the key, of the satellite timer; about to schedule; about to enable or disable
  Bluetooth, to take the radio mutex, to start the satellite stack; waiting for the
  endpoint; about to transmit, to stop the stack, to release the mutex, to restore the
  mark; or returned with a code.
\<close>

datatype main_pc =
    Boot | Wait_init | Wait_key | Start | Schedule | Enable_ble | Wait_timer
  | Disable_ble | Lock_radio | Start_sat | Wait_bound | Transmit | Stop_sat
  | Unlock_radio | Restore_mark | Returned int

definition main_load_key :: "env \<Rightarrow> ('a ble_state_scheme, unit) state" where
  "main_load_key e = do {
     r \<leftarrow> key_get e;
     if r = 0 then tell (Sem_give Key_sem)
     else if length (cfg_device_key e) \<noteq> 0 then do {
       _ \<leftarrow> crypto_key_set e (cfg_device_key e) (length (cfg_device_key e));
       ret ()
     } else ret ()
   }"

definition main_bt_start :: "env \<Rightarrow> ('a ble_state_scheme, main_pc) state" where
  "main_bt_start e = do {
     err \<leftarrow> ask (o_bt_enable e) Bt_enable;
     if err \<noteq> 0 then ret (Returned err)
     else do {
       err \<leftarrow> ble_init e;
       if err \<noteq> 0 then do { tell Bt_disable; ret (Returned err) }
       else ret Wait_init
     }
   }"

definition main_boot :: "env \<Rightarrow> ('a ble_state_scheme, main_pc) state" where
  "main_boot e = do {
     main_load_key e;
     cpunet_stack_mark 1;
     main_bt_start e
   }"

definition main_start :: "env \<Rightarrow> ('a ble_state_scheme, main_pc) state" where
  "main_start e = do {
     utc_time \<leftarrow> gets g_utc_time;
     key \<leftarrow> gets g_hubble_key;
     err \<leftarrow> ask (o_hubble_init e) (Hubble_init utc_time key);
     if err \<noteq> 0 then ret (Returned err)
     else if cfg_pass_prediction e then do {
       err \<leftarrow> ask (o_satellites_set e) Satellites_set;
       ret (if err \<noteq> 0 then Returned err else Schedule)
     } else ret Schedule
   }"

text \<open>
  The fuel is for the loops of the schedule and of the transmission; \<open>None\<close> is a loop that
  has not ended within it. A transmission that fails is followed by the same clean-up as
  one that succeeds.
\<close>

fun main_step :: "env \<Rightarrow> nat \<Rightarrow> main_pc \<Rightarrow> ('a ble_state_scheme, main_pc option) state" where
  "main_step e fuel Boot = do { pc \<leftarrow> main_boot e; ret (Some pc) }"
| "main_step e fuel Wait_init = do { tell (Sem_take Init_sem Forever); ret (Some Wait_key) }"
| "main_step e fuel Wait_key = do { tell (Sem_take Key_sem Forever); ret (Some Start) }"
| "main_step e fuel Start = do { pc \<leftarrow> main_start e; ret (Some pc) }"
| "main_step e fuel Schedule = do {
     r \<leftarrow> sat_schedule_next_transmission e fuel;
     ret (if r = None then None else Some Enable_ble)
   }"
| "main_step e fuel Enable_ble = do { ble_enable e False; ret (Some Wait_timer) }"
| "main_step e fuel Wait_timer = do { tell (Sem_take Timer_sem Forever); ret (Some Disable_ble) }"
| "main_step e fuel Disable_ble = do { ble_disable False; ret (Some Lock_radio) }"
| "main_step e fuel Lock_radio = do { tell (Mutex_lock Radio_mutex); ret (Some Start_sat) }"
| "main_step e fuel Start_sat = do {
     r \<leftarrow> sat_endpoint_open e;
     ret (Some (if r = None then Wait_bound else Stop_sat))
   }"
| "main_step e fuel Wait_bound = do {
     err \<leftarrow> sat_endpoint_init e;
     ret (Some (if err < 0 then Stop_sat else Transmit))
   }"
| "main_step e fuel Transmit = do {
     r \<leftarrow> sat_transmit e fuel;
     ret (if r = None then None else Some Stop_sat)
   }"
| "main_step e fuel Stop_sat = do { _ \<leftarrow> sat_disable e; ret (Some Unlock_radio) }"
| "main_step e fuel Unlock_radio = do {
     tell (Mutex_unlock Radio_mutex);
     ret (Some Restore_mark)
   }"
| "main_step e fuel Restore_mark = do { cpunet_stack_mark 1; ret (Some Schedule) }"
| "main_step e fuel (Returned r) = ret (Some (Returned r))"

text \<open>The thread on its own, \<open>n\<close> segments from a point.\<close>

fun main_run :: "env \<Rightarrow> nat \<Rightarrow> nat \<Rightarrow> main_pc \<Rightarrow> ('a ble_state_scheme, main_pc option) state" where
  "main_run e fuel 0 pc = ret (Some pc)"
| "main_run e fuel (Suc n) pc = do {
     r \<leftarrow> main_step e fuel pc;
     (case r of None \<Rightarrow> ret None | Some pc \<Rightarrow> main_run e fuel n pc)
   }"

section \<open>The invariant of the variables\<close>

lemma keeps_stack_mark [app_intros]: "keeps (app_ok e) (cpunet_stack_mark v)"
  unfolding cpunet_stack_mark_def by (intro keeps_intros app_intros)

lemma keeps_ipc_send [app_intros]: "keeps (app_ok e) (ipc_send e m)"
  unfolding ipc_send_def by (intro keeps_intros app_intros)

lemma keeps_sat_disable [app_intros]: "keeps (app_ok e) (sat_disable e)"
  unfolding sat_disable_def by (intro keeps_intros app_intros)

lemma keeps_main_step [app_intros]:
  "headers_ok e \<Longrightarrow> keeps (app_ok e) (main_step e fuel pc)"
  by (cases pc)
    (auto simp: main_boot_def main_load_key_def main_bt_start_def main_start_def sat_endpoint_open_def sat_endpoint_init_def
      intro!: keeps_intros app_intros)

lemma keeps_button_worker [app_intros]: "keeps (app_ok e) (button_pressed_worker e)"
  unfolding button_pressed_worker_def by (intro keeps_intros app_intros)

lemma keeps_button_pressed [app_intros]: "keeps (app_ok e) button_pressed"
  unfolding button_pressed_def by (intro keeps_intros app_intros)

end
