(* ===== verification/App_Calls.thy ===== *)
theory App_Calls
  imports App_Main
begin

text \<open>
  What each operation of the application core may call, and which of them touch the
  time: the frame that the invariants of the whole system are built from.
\<close>

section \<open>Frames\<close>

text \<open>\<open>frames A m\<close>: \<open>m\<close> leaves the time alone and makes only calls that satisfy \<open>A\<close>.\<close>

definition frames :: "(call \<Rightarrow> bool) \<Rightarrow> ('a ble_state_scheme, 'b) state \<Rightarrow> bool" where
  "frames A m \<longleftrightarrow> (\<forall>s. g_utc_time (exec m s) = g_utc_time s \<and>
     (\<exists>cs. calls (exec m s) = calls s @ cs \<and> list_all A cs))"

named_theorems frames_intros \<open>rules that prove \<open>frames\<close> along the monadic structure\<close>

lemma framesE:
  assumes "frames A m"
  obtains cs where "calls (exec m s) = calls s @ cs" and "list_all A cs"
    and "g_utc_time (exec m s) = g_utc_time s"
  using assms by (auto simp: frames_def)

lemma frames_return [frames_intros]: "frames A (ret x)"
  by (simp add: frames_def)

lemma frames_gets [frames_intros]: "frames A (gets f)"
  by (simp add: frames_def)

lemma frames_modify:
  "(\<And>s. calls (f s) = calls s) \<Longrightarrow> (\<And>s. g_utc_time (f s) = g_utc_time s) \<Longrightarrow>
   frames A (modify f)"
  by (simp add: frames_def)

lemma frames_guard_ok [frames_intros]: "frames A (guard_ok b)"
  by (simp add: frames_def)

lemma frames_ask [frames_intros]: "A c \<Longrightarrow> frames A (ask f c)"
  by (simp add: frames_def)

lemma frames_tell [frames_intros]: "A c \<Longrightarrow> frames A (tell c)"
  by (simp add: frames_def)

lemma frames_bind [frames_intros]:
  assumes "frames A m" and "\<And>r. frames A (f r)"
  shows "frames A (State_Monad.bind m f)"
  unfolding frames_def
proof
  fix s
  obtain cs where 1: "calls (exec m s) = calls s @ cs" "list_all A cs"
      "g_utc_time (exec m s) = g_utc_time s"
    using assms(1) by (rule framesE)
  let ?m' = "f (result m s)"
  obtain ds where 2: "calls (exec ?m' (exec m s)) = calls (exec m s) @ ds" "list_all A ds"
      "g_utc_time (exec ?m' (exec m s)) = g_utc_time (exec m s)"
    using assms(2) by (rule framesE)
  have "exec (State_Monad.bind m f) s = exec ?m' (exec m s)"
    by (simp split: prod.splits)
  with 1 2 show "g_utc_time (exec (State_Monad.bind m f) s) = g_utc_time s \<and>
      (\<exists>cs. calls (exec (State_Monad.bind m f) s) = calls s @ cs \<and> list_all A cs)"
    by (intro conjI exI [of _ "cs @ ds"]) simp_all
qed

lemma frames_if [frames_intros]:
  "(b \<Longrightarrow> frames A m) \<Longrightarrow> (\<not> b \<Longrightarrow> frames A n) \<Longrightarrow> frames A (if b then m else n)"
  by simp

lemma frames_case_prod [frames_intros]:
  "(\<And>x y. frames A (f x y)) \<Longrightarrow> frames A (case p of (x, y) \<Rightarrow> f x y)"
  by (cases p) auto

lemma frames_case_option [frames_intros]:
  "frames A m \<Longrightarrow> (\<And>x. frames A (f x)) \<Longrightarrow> frames A (case v of None \<Rightarrow> m | Some x \<Rightarrow> f x)"
  by (cases v) auto

lemma frames_case_sum [frames_intros]:
  "(\<And>x. frames A (f x)) \<Longrightarrow> (\<And>y. frames A (g y)) \<Longrightarrow>
   frames A (case v of Inl x \<Rightarrow> f x | Inr y \<Rightarrow> g y)"
  by (cases v) auto

lemma frames_mono: "frames A m \<Longrightarrow> (\<And>c. A c \<Longrightarrow> B c) \<Longrightarrow> frames B m"
  unfolding frames_def list_all_iff by meson

lemma frames_logs: "logs A m \<Longrightarrow> frames A m"
  unfolding frames_def
proof
  fix s :: "'a ble_state_scheme"
  assume "logs A m"
  then obtain r cs where "run_state m s = (r, s\<lparr>calls := calls s @ cs\<rparr>)" "list_all A cs"
    by (rule logsE)
  then show "g_utc_time (exec m s) = g_utc_time s \<and>
      (\<exists>cs. calls (exec m s) = calls s @ cs \<and> list_all A cs)" by auto
qed

section \<open>Calls that leave the radio and the main thread's semaphores alone\<close>

text \<open>
  \<open>quiet\<close> calls do not switch a radio on or off, touch the radio mutex, the mark, the
  endpoint or a semaphore wait, transmit, arm the satellite timer, or report the time or a
  pass to the main thread.
\<close>

fun quiet :: "call \<Rightarrow> bool" where
  "quiet (Mutex_lock m) = (m \<noteq> Radio_mutex)"
| "quiet (Mutex_unlock m) = (m \<noteq> Radio_mutex)"
| "quiet Bt_enable = False"
| "quiet Bt_disable = False"
| "quiet (Packet_send _ _) = False"
| "quiet (Mark_write _) = False"
| "quiet (Cpunet_enable _) = False"
| "quiet (Hubble_init _ _) = False"
| "quiet (Sem_take _ _) = False"
| "quiet (Sem_give x) = (x \<notin> {Init_sem, Timer_sem})"
| "quiet (Timer_start t _ _) = (t \<noteq> Sat_timer)"
| "quiet (Ipc_send _) = False"
| "quiet _ = True"

lemma quiet_no_mutex: "quiet c \<Longrightarrow> \<not> is_mutex_op c"
  by (cases c) auto

lemma led_quiet: "is_led c \<Longrightarrow> quiet c"
  by (cases c) auto

lemma sensor_quiet: "is_sensor c \<Longrightarrow> quiet c"
  by (cases c) auto

lemma frames_led_start [frames_intros]: "frames quiet (led_blink_start e)"
  by (rule frames_mono [OF frames_logs [OF logs_led_blink_start]])
    (simp add: led_quiet starts_led_is_led)

lemma frames_led_stop [frames_intros]: "frames quiet (led_blink_stop e)"
  by (rule frames_mono [OF frames_logs [OF logs_led_blink_stop]]) (simp add: led_quiet)

lemma frames_sensor [frames_intros]: "frames quiet (sensor_data_get e ch)"
  by (rule frames_mono [OF frames_logs [OF logs_sensor_data_get]]) (simp add: sensor_quiet)

lemma frames_led_tick [frames_intros]: "frames quiet led_blink_cb"
  unfolding led_blink_cb_def by (intro frames_intros) simp

lemma frames_led_off [frames_intros]: "frames quiet (led_stop_cb e)"
  unfolding led_stop_cb_def by (intro frames_intros) simp

lemma frames_ep_recv [frames_intros]: "frames quiet (ep_recv pkt)"
  unfolding ep_recv_def by (intro frames_intros) simp

lemma frames_ep_bound [frames_intros]: "frames quiet ep_bound"
  unfolding ep_bound_def by (intro frames_intros) simp

section \<open>The satellite board\<close>

lemma frames_retransmission_set [frames_intros]: "frames quiet (sat_retransmission_set f)"
  unfolding sat_retransmission_set_def by (intro frames_intros frames_modify) simp_all

lemma frames_payload_set [frames_intros]: "frames quiet (sat_payload_set t d n)"
  unfolding sat_payload_set_def by (intro frames_intros frames_modify) simp_all

lemma frames_location_set [frames_intros]: "frames quiet (device_location_set e la lo)"
  unfolding device_location_set_def by (intro frames_intros frames_modify) simp_all

lemma frames_pass_add [frames_intros]: "frames quiet (sat_pass_add e t d)"
  unfolding sat_pass_add_def by (intro frames_intros frames_modify) simp_all

lemma frames_next_pass_loop [frames_intros]: "frames quiet (next_pass_loop e fuel now t)"
proof (induction fuel arbitrary: t)
  case 0
  show ?case by (simp add: frames_return)
next
  case (Suc fuel)
  show ?case
    by (subst next_pass_loop.simps) (intro frames_intros frames_modify Suc.IH, simp_all)
qed

text \<open>Scheduling makes quiet calls and may arm the satellite timer.\<close>

fun arms :: "call \<Rightarrow> bool" where
  "arms (Timer_start t _ p) = (t = Sat_timer \<longrightarrow> p = 0)"
| "arms c = quiet c"

lemma quiet_arms: "quiet c \<Longrightarrow> arms c"
  by (cases c) auto

lemma frames_schedule: "frames arms (sat_schedule_next_transmission e fuel)"
proof -
  have "frames arms (next_pass_loop e fuel now t)" for now t
    by (rule frames_mono [OF frames_next_pass_loop]) (rule quiet_arms)
  then show ?thesis
    unfolding sat_schedule_next_transmission_def arm_sat_timer_def Let_def
    by (intro frames_intros frames_modify) simp_all
qed

lemma frames_next_get [frames_intros]: "frames quiet (sat_next_transmission_get e n)"
  unfolding sat_next_transmission_get_def Let_def by (intro frames_intros)

lemma frames_payload_build [frames_intros]: "frames quiet (sat_payload_build e)"
  unfolding sat_payload_build_def Let_def copy_to_packet_def by (intro frames_intros) simp_all

lemma frames_transmission_time [frames_intros]: "frames quiet sat_transmission_time_get"
  unfolding sat_transmission_time_get_def by (intro frames_intros)

text \<open>A transmission makes quiet calls and sends.\<close>

fun sends :: "call \<Rightarrow> bool" where
  "sends (Packet_send _ _) = True"
| "sends c = quiet c"

lemma quiet_sends: "quiet c \<Longrightarrow> sends c"
  by (cases c) auto

lemma frames_sends: "frames quiet m \<Longrightarrow> frames sends m"
  by (erule frames_mono) (rule quiet_sends)

lemma frames_send_loop: "frames sends (send_loop e fuel pkt now end_ms)"
proof (induction fuel arbitrary: now)
  case 0
  show ?case by (simp add: frames_return)
next
  case (Suc fuel)
  show ?case by (subst send_loop.simps) (intro frames_intros Suc.IH, simp_all)
qed

lemma frames_transmit: "frames sends (sat_transmit e fuel)"
  unfolding sat_transmit_def transmit_packet_def Let_def
  by (intro frames_bind frames_return frames_if frames_case_option frames_case_prod
      frames_ask frames_modify frames_send_loop
      frames_sends [OF frames_payload_build] frames_sends [OF frames_led_start]
      frames_sends [OF frames_led_stop] frames_sends [OF frames_transmission_time]) simp_all

section \<open>The other components\<close>

lemma frames_key_set [frames_intros]: "frames quiet (crypto_key_set e k n)"
  unfolding crypto_key_set_def hubble_nvs_write_def
  by (intro frames_intros frames_modify) simp_all

lemma frames_key_get [frames_intros]: "frames quiet (key_get e)"
  unfolding key_get_def hubble_nvs_read_def by (intro frames_intros frames_modify) simp_all

lemma frames_ble_init [frames_intros]: "frames quiet (ble_init e)"
  unfolding ble_init_def by (intro frames_intros) simp

lemma frames_adv_start [frames_intros]: "frames quiet (ble_adv_start e)"
  unfolding ble_adv_start_def by (intro frames_intros frames_modify) simp_all

lemma frames_adv_stop [frames_intros]: "frames quiet ble_adv_stop"
  unfolding ble_adv_stop_def by (intro frames_intros) simp_all

lemma frames_ble_work [frames_intros]: "frames quiet (ble_work_handler e)"
  unfolding ble_work_handler_def by (intro frames_intros)

lemma frames_provisioning [frames_intros]: "frames quiet (adv_provisioning_work_handler e)"
  unfolding adv_provisioning_work_handler_def by (intro frames_intros)

lemma frames_timer_ble_cb [frames_intros]: "frames quiet timer_ble_cb"
  unfolding timer_ble_cb_def by (intro frames_intros) simp

lemma frames_connected_cb [frames_intros]: "frames quiet connected_cb"
  unfolding connected_cb_def by (intro frames_intros) simp

lemma frames_button_pressed [frames_intros]: "frames quiet button_pressed"
  unfolding button_pressed_def by (intro frames_intros) simp

lemma frames_shell_print [frames_intros]: "frames quiet (shell_print f as)"
  unfolding shell_print_def by (intro frames_intros) simp

lemma frames_argv_text [frames_intros]: "frames quiet (argv_text argv i)"
  unfolding argv_text_def by (intro frames_intros)

lemma frames_cmd_retransmission: "frames quiet (cmd_retransmission argv)"
  unfolding cmd_retransmission_def Let_def by (intro frames_intros) simp_all

lemma frames_cmd_payload: "frames quiet (cmd_payload e argv)"
  unfolding cmd_payload_def cmd_payload_set_def Let_def by (intro frames_intros) simp_all

lemma frames_cmd_sensor: "frames quiet (cmd_sensor e argv)"
  unfolding cmd_sensor_def by (intro frames_intros)

lemma frames_print_timestamps [frames_intros]: "frames quiet (print_timestamps ts)"
  by (induction ts) (auto intro!: frames_intros)

lemma frames_cmd_status: "frames quiet (cmd_status e)"
  unfolding cmd_status_def status_report_def sat_is_transmitting_def crypto_key_is_set_def
  by (intro frames_intros) simp_all

lemma frames_cmd_time: "frames quiet (cmd_time e)"
  unfolding cmd_time_def by (intro frames_intros) simp

lemma frames_cmd_key: "frames quiet (cmd_key e argv)"
  unfolding cmd_key_def by (intro frames_intros)

text \<open>Every command but the one that takes the radio mutex.\<close>

lemma frames_shell_command:
  assumes "shell_command e argv = Some m" and "hd argv \<noteq> ''bluetooth''"
  shows "frames quiet m"
proof -
  have "m \<in> {cmd_retransmission argv, cmd_key e argv, cmd_payload e argv, cmd_status e,
      cmd_time e, cmd_sensor e argv}"
    using assms by (auto simp: shell_command_def split: if_splits)
  then show ?thesis
    by (auto intro: frames_cmd_retransmission frames_cmd_key frames_cmd_payload
        frames_cmd_status frames_cmd_time frames_cmd_sensor)
qed

section \<open>The segments of main\<close>

text \<open>The calls each segment may make.\<close>

fun main_calls :: "main_pc \<Rightarrow> call \<Rightarrow> bool" where
  "main_calls Boot c = (quiet c \<or> c \<in> {Mark_write 1, Bt_enable, Bt_disable})"
| "main_calls Wait_init c = (c = Sem_take Init_sem Forever)"
| "main_calls Wait_key c = (c = Sem_take Key_sem Forever)"
| "main_calls Wait_timer c = (c = Sem_take Timer_sem Forever)"
| "main_calls Start c = (quiet c \<or> (\<exists>t k. c = Hubble_init t k))"
| "main_calls Schedule c = arms c"
| "main_calls Enable_ble c =
     (quiet c \<or> c \<in> {Mutex_lock Radio_mutex, Mutex_unlock Radio_mutex, Bt_enable})"
| "main_calls Disable_ble c =
     (quiet c \<or> c \<in> {Mutex_lock Radio_mutex, Mutex_unlock Radio_mutex, Bt_disable})"
| "main_calls Lock_radio c = (c = Mutex_lock Radio_mutex)"
| "main_calls Start_sat c = (quiet c \<or> c \<in> {Mark_write 0, Cpunet_enable True})"
| "main_calls Wait_bound c = ((\<exists>x t. c = Sem_take x t) \<or> (\<exists>m. c = Ipc_send m))"
| "main_calls Transmit c = sends c"
| "main_calls Stop_sat c = (quiet c \<or> c = Cpunet_enable False)"
| "main_calls Unlock_radio c = (c = Mutex_unlock Radio_mutex)"
| "main_calls Restore_mark c = (c = Mark_write 1)"
| "main_calls (Returned r) c = False"

lemma frames_quietI: "frames quiet m \<Longrightarrow> (\<And>c. quiet c \<Longrightarrow> A c) \<Longrightarrow> frames A m"
  by (erule frames_mono)

lemma frames_ble_enable:
  "frames (\<lambda>c. quiet c \<or> c \<in> {Mutex_lock Radio_mutex, Mutex_unlock Radio_mutex, Bt_enable})
     (ble_enable e u)"
  unfolding ble_enable_def ble_enable_body_def
  by (intro frames_bind frames_return frames_gets frames_if frames_ask frames_tell frames_modify
      frames_quietI [OF frames_ble_init] frames_quietI [OF frames_adv_start]) simp_all

lemma frames_ble_disable:
  "frames (\<lambda>c. quiet c \<or> c \<in> {Mutex_lock Radio_mutex, Mutex_unlock Radio_mutex, Bt_disable})
     (ble_disable u)"
  unfolding ble_disable_def
  by (intro frames_bind frames_return frames_if frames_tell frames_modify
      frames_quietI [OF frames_adv_stop]) simp_all

lemma frames_load_key: "frames quiet (main_load_key e)"
  unfolding main_load_key_def by (intro frames_intros) simp

lemma frames_bt_start: "frames (\<lambda>c. quiet c \<or> c \<in> {Bt_enable, Bt_disable}) (main_bt_start e)"
  unfolding main_bt_start_def
  by (intro frames_bind frames_return frames_if frames_ask frames_tell
      frames_quietI [OF frames_ble_init]) simp_all

lemma frames_main_boot: "frames (main_calls Boot) (main_boot e)"
  unfolding main_boot_def cpunet_stack_mark_def
  by (intro frames_bind frames_tell frames_quietI [OF frames_load_key]
      frames_mono [OF frames_bt_start]) auto

lemma frames_ipc_send: "frames (main_calls Wait_bound) (ipc_send e m)"
  unfolding ipc_send_def by (intro frames_intros) simp_all

lemma frames_main_step: "frames (main_calls pc) (main_step e fuel pc)"
proof (cases pc)
  case Boot
  then show ?thesis by (auto intro!: frames_bind frames_return frames_main_boot)
next
  case Start
  then show ?thesis by (auto simp: main_start_def intro!: frames_intros)
next
  case Schedule
  have "frames (main_calls Schedule) (sat_schedule_next_transmission e fuel)"
    by (rule frames_mono [OF frames_schedule]) simp
  with Schedule show ?thesis by (auto intro!: frames_bind frames_return)
next
  case Enable_ble
  have "frames (main_calls Enable_ble) (ble_enable e False)"
    by (rule frames_mono [OF frames_ble_enable]) simp
  with Enable_ble show ?thesis by (auto intro!: frames_bind frames_return)
next
  case Disable_ble
  have "frames (main_calls Disable_ble) (ble_disable False)"
    by (rule frames_mono [OF frames_ble_disable]) simp
  with Disable_ble show ?thesis by (auto intro!: frames_bind frames_return)
next
  case Start_sat
  then show ?thesis
    by (auto simp: sat_endpoint_open_def cpunet_stack_mark_def intro!: frames_intros)
next
  case Wait_bound
  then show ?thesis
    by (auto simp: sat_endpoint_init_def intro!: frames_bind frames_return frames_tell
        frames_ipc_send)
next
  case Transmit
  have "frames (main_calls Transmit) (sat_transmit e fuel)"
    by (rule frames_mono [OF frames_transmit]) simp
  with Transmit show ?thesis by (auto intro!: frames_bind frames_return)
next
  case Stop_sat
  then show ?thesis by (auto simp: sat_disable_def intro!: frames_intros)
qed (auto simp: cpunet_stack_mark_def intro!: frames_intros)

end
