(* ===== verification/App_System.thy ===== *)
theory App_System
  imports App_Calls
begin

text \<open>
  The application core as a concurrent program: the main thread, cut into its segments,
  interleaved with everything that runs beside it: the Bluetooth callbacks, the shell,
  the button, the timers and the work queue, and the endpoint callbacks. A semaphore's
  count and the mutex's owner are what the log of calls says.
\<close>

section \<open>The kernel objects\<close>

text \<open>A binary semaphore after some calls, from whether it was available before.\<close>

fun sem_after :: "sem \<Rightarrow> bool \<Rightarrow> call list \<Rightarrow> bool" where
  "sem_after x b [] = b"
| "sem_after x b (c # cs) = sem_after x
     (case c of Sem_give y \<Rightarrow> if y = x then True else b
      | Sem_take y _ \<Rightarrow> if y = x then False else b
      | _ \<Rightarrow> b) cs"

definition sem_avail :: "sem \<Rightarrow> 'a world_scheme \<Rightarrow> bool" where
  "sem_avail x s = sem_after x False (calls s)"

definition radio_free :: "'a world_scheme \<Rightarrow> bool" where
  "radio_free s \<longleftrightarrow> lock_depth (calls s) = 0"

lemma sem_after_append [simp]: "sem_after x b (cs @ ds) = sem_after x (sem_after x b cs) ds"
  by (induction x b cs rule: sem_after.induct) auto

lemma sem_after_given: "sem_after x b cs \<Longrightarrow> b \<or> Sem_give x \<in> set cs"
  by (induction x b cs rule: sem_after.induct) (auto split: call.splits if_splits)

lemma sem_avail_given: "sem_avail x s \<Longrightarrow> Sem_give x \<in> set (calls s)"
  using sem_after_given [of x False] by (simp add: sem_avail_def)

section \<open>The main thread\<close>

text \<open>Whether the call at which a segment starts can return.\<close>

fun main_enabled :: "main_pc \<Rightarrow> 'a world_scheme \<Rightarrow> bool" where
  "main_enabled Wait_init s = sem_avail Init_sem s"
| "main_enabled Wait_key s = sem_avail Key_sem s"
| "main_enabled Wait_timer s = sem_avail Timer_sem s"
| "main_enabled Wait_bound s = sem_avail Bound_sem s"
| "main_enabled Enable_ble s = radio_free s"
| "main_enabled Disable_ble s = radio_free s"
| "main_enabled Lock_radio s = radio_free s"
| "main_enabled (Returned r) s = False"
| "main_enabled pc s = True"

text \<open>The points at which the main thread holds the radio mutex, and at which the mark says
  that the network core runs the satellite stack.\<close>

definition holds_radio :: "main_pc \<Rightarrow> bool" where
  "holds_radio pc \<longleftrightarrow> pc \<in> {Start_sat, Wait_bound, Transmit, Stop_sat, Unlock_radio}"

definition marks_sat :: "main_pc \<Rightarrow> bool" where
  "marks_sat pc \<longleftrightarrow> pc \<in> {Wait_bound, Transmit, Stop_sat, Unlock_radio, Restore_mark}"

section \<open>Everything else\<close>

datatype handler =
    Gatt_write bytes u8 | Connected | Disconnected
  | Shell_line "string list"
  | Button_irq | Button_worker
  | Sat_expired | Ble_expired | Led_expired | Led_stopped
  | Ble_worker | Provisioning_worker
  | Ipc_received ipc_msg | Ipc_bound

fun handler_op :: "env \<Rightarrow> handler \<Rightarrow> ('a ble_state_scheme, unit) state" where
  "handler_op e (Gatt_write req flags) = do { _ \<leftarrow> chr_write_cb e req flags; ret () }"
| "handler_op e Connected = connected_cb"
| "handler_op e Disconnected = disconnected_cb"
| "handler_op e (Shell_line argv) =
     (case shell_command e argv of None \<Rightarrow> ret () | Some m \<Rightarrow> do { _ \<leftarrow> m; ret () })"
| "handler_op e Button_irq = button_pressed"
| "handler_op e Button_worker = button_pressed_worker e"
| "handler_op e Sat_expired = timer_cb"
| "handler_op e Ble_expired = timer_ble_cb"
| "handler_op e Led_expired = led_blink_cb"
| "handler_op e Led_stopped = led_stop_cb e"
| "handler_op e Ble_worker = ble_work_handler e"
| "handler_op e Provisioning_worker = adv_provisioning_work_handler e"
| "handler_op e (Ipc_received pkt) = ep_recv pkt"
| "handler_op e Ipc_bound = ep_bound"

text \<open>The handlers that need the radio mutex can finish only when it is free.\<close>

fun handler_enabled :: "handler \<Rightarrow> 'a world_scheme \<Rightarrow> bool" where
  "handler_enabled Button_worker s = radio_free s"
| "handler_enabled (Shell_line argv) s =
     (argv \<noteq> [] \<and> hd argv = ''bluetooth'' \<longrightarrow> radio_free s)"
| "handler_enabled h s = True"

section \<open>The transition system\<close>

text \<open>\<^verbatim>\<open>SYS_INIT\<close> runs the two initialisation functions before \<^verbatim>\<open>main\<close>.\<close>

definition initial_state :: "env \<Rightarrow> ble_state" where
  "initial_state e = \<lparr>
     calls = [], fault = False,
     g_power = 0, g_retransmission_frequency_s = cfg_retransmission e,
     g_custom_payload_buffer = replicate (PAYLOAD_MAX e) 0, g_custom_payload_size = 0,
     g_payload_type = INVALID e, g_transmitting = False,
     g_next_pass = \<lparr>pass_start = 0, pass_duration = 0\<rparr>,
     g_device_pos = \<lparr>lat = 0, lon = 0\<rparr>,
     g_sat_passes_idx = 0, g_sat_passes_count = 0,
     g_sat_passes = replicate HUBBLE_NUMBER_OF_TIMESTAMPS \<lparr>sp_timestamp = 0, sp_duration = 0\<rparr>,
     fs_offset = 0, fs_sector_size = 0, fs_sector_count = 0,
     g_hubble_key = replicate (cfg_key_size e) 0,
     g_utc_time = 0, g_ble_off_by_user = False, g_app_ad = app_ad_init
   \<rparr>"

definition system_init :: "env \<Rightarrow> ('a ble_state_scheme, unit) state" where
  "system_init e = do { _ \<leftarrow> nvs_init e; _ \<leftarrow> button_init e; ret () }"

inductive app_step ::
    "env \<Rightarrow> nat \<Rightarrow> (handler \<Rightarrow> bool) \<Rightarrow> main_pc \<times> ble_state \<Rightarrow> main_pc \<times> ble_state \<Rightarrow> bool"
  for e :: env and fuel :: nat and P :: "handler \<Rightarrow> bool" where
  main: "main_enabled pc s \<Longrightarrow> run_state (main_step e fuel pc) s = (Some pc', s') \<Longrightarrow>
    app_step e fuel P (pc, s) (pc', s')"
| handler: "P h \<Longrightarrow> handler_enabled h s \<Longrightarrow>
    app_step e fuel P (pc, s) (pc, exec (handler_op e h) s)"

inductive_cases app_stepE: "app_step e fuel P (pc, s) (pc', s')"

text \<open>\<open>P\<close> is an assumption on what reaches the core from outside.\<close>

inductive app_reach :: "env \<Rightarrow> nat \<Rightarrow> (handler \<Rightarrow> bool) \<Rightarrow> main_pc \<times> ble_state \<Rightarrow> bool"
  for e :: env and fuel :: nat and P :: "handler \<Rightarrow> bool" where
  init: "app_reach e fuel P (Boot, exec (system_init e) (initial_state e))"
| step: "app_reach e fuel P c \<Longrightarrow> app_step e fuel P c c' \<Longrightarrow> app_reach e fuel P c'"

text \<open>An invariant of the configurations is one of the start and of every step.\<close>

lemma app_reach_invariant:
  assumes "app_reach e fuel P (pc, s)"
    and "I Boot (exec (system_init e) (initial_state e))"
    and "\<And>pc s pc' s'. I pc s \<Longrightarrow> main_enabled pc s \<Longrightarrow>
      run_state (main_step e fuel pc) s = (Some pc', s') \<Longrightarrow> I pc' s'"
    and "\<And>pc s h. I pc s \<Longrightarrow> P h \<Longrightarrow> handler_enabled h s \<Longrightarrow> I pc (exec (handler_op e h) s)"
  shows "I pc s"
proof -
  have "\<forall>pc s. c = (pc, s) \<longrightarrow> I pc s" if "app_reach e fuel P c" for c
    using that
  proof (induction rule: app_reach.induct)
    case init
    then show ?case using assms(2) by simp
  next
    case (step c c')
    then show ?case using assms(3,4) by (auto elim!: app_step.cases)
  qed
  with assms(1) show ?thesis by blast
qed

section \<open>Memory safety\<close>

text \<open>Input of the sizes the handlers rely on: a write of at least two bytes, and an argument
  for the command that prints it unseen.\<close>

fun well_formed :: "handler \<Rightarrow> bool" where
  "well_formed (Gatt_write req flags) = (2 \<le> length req)"
| "well_formed (Shell_line argv) = (argv \<noteq> [] \<and> hd argv = ''payload'' \<longrightarrow> 2 \<le> length argv)"
| "well_formed h = True"

lemma keeps_handler_op:
  assumes "headers_ok e" and "well_formed h"
  shows "keeps (app_ok e) (handler_op e h)"
proof (cases h)
  case (Shell_line argv)
  show ?thesis
  proof (cases "shell_command e argv :: ('a ble_state_scheme, int) state option")
    case None
    with Shell_line show ?thesis by (simp add: keeps_return)
  next
    case (Some m)
    then have "argv \<noteq> []" by (auto simp: shell_command_def)
    with assms Shell_line Some keeps_shell_command [OF assms(1) Some]
    show ?thesis by (auto intro!: keeps_intros)
  qed
qed (use assms in \<open>auto simp: ep_recv_def ep_bound_def led_blink_cb_def led_stop_cb_def
  intro!: keeps_intros app_intros\<close>)

text \<open>What the configuration must provide for the initial values to be in range.\<close>

definition config_ok :: "env \<Rightarrow> bool" where
  "config_ok e \<longleftrightarrow> headers_ok e \<and> unat (cfg_retransmission e) \<le> 10 \<and>
     (\<forall>tr. snd (o_flash_info e tr) \<noteq> 0)"

lemma logs_button_init: "logs (\<lambda>_. True) (button_init e)"
  unfolding button_init_def by (intro logs_intros) simp_all

lemma keeps_nvs_init: "config_ok e \<Longrightarrow> keeps (app_ok e) (nvs_init e)"
  by (auto simp: keeps_def nvs_init_def app_ok_defs config_ok_def split: prod.splits)
    (metis snd_conv)+

lemma app_ok_initial:
  assumes "config_ok e"
  shows "app_ok e (exec (system_init e) (initial_state e))"
proof -
  have "app_ok e (initial_state e)"
    using assms by (simp add: app_ok_defs initial_state_def config_ok_def app_ad_init_def payload_type_invalid
        HUBBLE_NUMBER_OF_TIMESTAMPS_def)
  moreover have "keeps (app_ok e) (system_init e)"
    unfolding system_init_def using assms
    by (intro keeps_intros keeps_nvs_init keeps_logs [OF logs_button_init] app_intros)
  ultimately show ?thesis by (rule keepsD [rotated])
qed

lemma reach_app_ok:
  assumes "config_ok e" and "app_reach e fuel well_formed (pc, s)"
  shows "app_ok e s"
  using assms(2)
proof (rule app_reach_invariant [where I = "\<lambda>_. app_ok e"])
  have h: "headers_ok e" using assms(1) by (simp add: config_ok_def)
  fix pc pc' :: main_pc and s s' :: ble_state and h
  show "app_ok e (exec (system_init e) (initial_state e))"
    by (rule app_ok_initial [OF assms(1)])
  show "app_ok e s \<Longrightarrow> run_state (main_step e fuel pc) s = (Some pc', s') \<Longrightarrow> app_ok e s'"
    using keepsD [OF keeps_main_step [OF h, of fuel pc], of s] by simp
  show "app_ok e s \<Longrightarrow> well_formed h \<Longrightarrow> app_ok e (exec (handler_op e h) s)"
    using keepsD [OF keeps_handler_op [OF h]] by blast
qed

section \<open>The effect of a handler\<close>

text \<open>What a handler may add to the log: quiet calls, the radio section, and the report of the
  time to the main thread.\<close>

fun handler_calls :: "call \<Rightarrow> bool" where
  "handler_calls (Mutex_lock m) = True"
| "handler_calls (Mutex_unlock m) = True"
| "handler_calls Bt_enable = True"
| "handler_calls Bt_disable = True"
| "handler_calls (Sem_give x) = True"
| "handler_calls c = quiet c"

lemma quiet_handler: "quiet c \<Longrightarrow> handler_calls c"
  by (cases c) auto

text \<open>
  \<open>handler_adds h s cs t\<close>: the handler \<open>h\<close> that started in \<open>s\<close> with the calls \<open>cs\<close> may leave
  the time \<open>t\<close>. The mutex is released again, the time changes only after the SDK was told it, the
  main thread is told only when there is a time, Bluetooth is switched on or off only while
  nothing else has the radio, and only the timer's expiry wakes the main thread for a pass.
\<close>

definition handler_adds :: "handler \<Rightarrow> ble_state \<Rightarrow> call list \<Rightarrow> u64 \<Rightarrow> bool" where
  "handler_adds h s cs t \<longleftrightarrow> list_all handler_calls cs \<and> lock_depth cs = 0 \<and>
     (t = g_utc_time s \<or> (\<exists>v. Hubble_time_set v \<in> set cs)) \<and>
     (Sem_give Init_sem \<in> set cs \<longrightarrow> g_utc_time s \<noteq> 0) \<and>
     (Bt_enable \<in> set cs \<or> Bt_disable \<in> set cs \<longrightarrow> radio_free s) \<and>
     (Sem_give Timer_sem \<in> set cs \<longrightarrow> h = Sat_expired)"

lemma quiet_adds:
  fixes m :: "(ble_state, 'b) state"
  assumes "frames quiet m"
  shows "\<exists>cs. calls (exec m s) = calls s @ cs \<and> handler_adds h s cs (g_utc_time (exec m s))"
proof -
  obtain cs where cs: "calls (exec m s) = calls s @ cs" "list_all quiet cs"
      "g_utc_time (exec m s) = g_utc_time s"
    using assms by (rule framesE)
  have "lock_depth cs = 0"
    by (rule lock_depth_none) (use cs(2) quiet_no_mutex in \<open>auto simp: list_all_iff\<close>)
  moreover have "list_all handler_calls cs"
    using cs(2) quiet_handler by (auto simp: list_all_iff)
  moreover have "Sem_give Init_sem \<notin> set cs" "Sem_give Timer_sem \<notin> set cs" "Bt_enable \<notin> set cs"
      "Bt_disable \<notin> set cs"
    using cs(2) by (auto simp: list_all_iff)
  ultimately show ?thesis using cs by (auto simp: handler_adds_def)
qed

text \<open>The two radio sections, when the mutex is free.\<close>

lemma section_adds:
  fixes m :: "(ble_state, unit) state"
  assumes "frames (\<lambda>c. quiet c \<or> c \<in> {Mutex_lock Radio_mutex, Mutex_unlock Radio_mutex, b}) m"
    and "lock_depth (calls (exec m s)) = lock_depth (calls s)"
    and "b \<in> {Bt_enable, Bt_disable}" and "radio_free s"
  shows "\<exists>cs. calls (exec m s) = calls s @ cs \<and> handler_adds h s cs (g_utc_time (exec m s))"
proof -
  obtain cs where cs: "calls (exec m s) = calls s @ cs"
      "list_all (\<lambda>c. quiet c \<or> c \<in> {Mutex_lock Radio_mutex, Mutex_unlock Radio_mutex, b}) cs"
      "g_utc_time (exec m s) = g_utc_time s"
    using assms(1) by (rule framesE)
  have "lock_depth cs = 0" using assms(2) cs(1) by simp
  moreover have "list_all handler_calls cs"
    using cs(2) assms(3) quiet_handler by (auto simp: list_all_iff)
  moreover have "Sem_give Init_sem \<notin> set cs" "Sem_give Timer_sem \<notin> set cs"
    using cs(2) assms(3) by (auto simp: list_all_iff)
  ultimately show ?thesis using cs assms(4) by (auto simp: handler_adds_def)
qed

lemmas enable_adds = section_adds [OF frames_ble_enable enable_section.section_balanced]
lemmas disable_adds = section_adds [OF frames_ble_disable disable_section.section_balanced]

text \<open>Calls a handler makes before its section.\<close>

lemma adds_after:
  assumes "\<exists>cs. calls s' = calls (s\<lparr>calls := calls s @ [c]\<rparr>) @ cs \<and>
      handler_adds h (s\<lparr>calls := calls s @ [c]\<rparr>) cs t"
    and "quiet c" and "radio_free s"
  shows "\<exists>cs. calls s' = calls s @ cs \<and> handler_adds h s cs t"
proof -
  obtain cs where cs: "calls s' = calls s @ c # cs"
      "handler_adds h (s\<lparr>calls := calls s @ [c]\<rparr>) cs t"
    using assms(1) by auto
  have "lock_depth [c] = 0" "handler_calls c"
    using assms(2) quiet_no_mutex quiet_handler by (auto simp: lock_depth_none)
  with cs assms(2,3) show ?thesis
    by (intro exI [of _ "c # cs"]) (auto simp: handler_adds_def)
qed

lemma button_adds:
  assumes "radio_free s"
  shows "\<exists>cs. calls (exec (button_pressed_worker e) s) = calls s @ cs \<and>
    handler_adds h s cs (g_utc_time (exec (button_pressed_worker e) s))"
proof -
  let ?s = "s\<lparr>calls := calls s @ [Bt_is_ready]\<rparr>"
  have "radio_free ?s" using assms by (simp add: radio_free_def)
  note on = enable_adds [of ?s e True, OF _ this] and off = disable_adds [of ?s True, OF _ this]
  show ?thesis
    by (rule adds_after [OF _ _ assms, of _ Bt_is_ready])
      (use on off in \<open>auto simp: button_pressed_worker_def\<close>)
qed

text \<open>The write callback may change the time, after it told the SDK.\<close>

definition timed :: "(ble_state, 'b) state \<Rightarrow> bool" where
  "timed m \<longleftrightarrow> (\<forall>s. \<exists>cs. calls (exec m s) = calls s @ cs \<and> list_all quiet cs \<and>
     (g_utc_time (exec m s) = g_utc_time s \<or> (\<exists>v. Hubble_time_set v \<in> set cs)))"

lemma timed_frames: "frames quiet m \<Longrightarrow> timed m"
  unfolding timed_def by (meson framesE)

lemma timed_bind:
  assumes "frames quiet m" and "\<And>r. timed (f r)"
  shows "timed (State_Monad.bind m f)"
  unfolding timed_def
proof
  fix s :: ble_state
  obtain cs where 1: "calls (exec m s) = calls s @ cs" "list_all quiet cs"
      "g_utc_time (exec m s) = g_utc_time s"
    using assms(1) by (rule framesE)
  let ?s' = "exec (f (result m s)) (exec m s)"
  obtain ds where 2: "calls ?s' = calls (exec m s) @ ds" "list_all quiet ds"
      "g_utc_time ?s' = g_utc_time (exec m s) \<or> (\<exists>v. Hubble_time_set v \<in> set ds)"
    using assms(2) unfolding timed_def by blast
  have "exec (State_Monad.bind m f) s = ?s'" by (simp split: prod.splits)
  with 1 2 show "\<exists>cs. calls (exec (State_Monad.bind m f) s) = calls s @ cs \<and> list_all quiet cs \<and>
      (g_utc_time (exec (State_Monad.bind m f) s) = g_utc_time s \<or>
       (\<exists>v. Hubble_time_set v \<in> set cs))"
    by (intro exI [of _ "cs @ ds"]) auto
qed

lemma timed_if: "(b \<Longrightarrow> timed m) \<Longrightarrow> (\<not> b \<Longrightarrow> timed n) \<Longrightarrow> timed (if b then m else n)"
  by simp

lemma timed_set_utc: "timed (do { set_utc_cmd e req; ret n })"
  by (auto simp: timed_def set_utc_cmd_def)

lemma frames_read_byte [frames_intros]: "frames quiet (read_byte e buf i)"
  unfolding read_byte_def by (intro frames_intros)

lemma frames_ephemeris_loop [frames_intros]: "frames quiet (ephemeris_loop e n p a)"
proof (induction n arbitrary: p a)
  case 0
  show ?case by (simp add: frames_return)
next
  case (Suc n)
  show ?case by (subst ephemeris_loop.simps) (intro frames_intros Suc.IH)
qed

lemma timed_write: "timed (chr_write_cb e req flags)"
  unfolding chr_write_cb_def Let_def set_ephemeris_cmd_def
  by (intro timed_if timed_bind timed_set_utc) (intro timed_frames frames_intros)+

lemma write_adds:
  "\<exists>cs. calls (exec (chr_write_cb e req flags) s) = calls s @ cs \<and>
    handler_adds h s cs (g_utc_time (exec (chr_write_cb e req flags) s))"
proof -
  obtain cs where cs: "calls (exec (chr_write_cb e req flags) s) = calls s @ cs"
      "list_all quiet cs"
      "g_utc_time (exec (chr_write_cb e req flags) s) = g_utc_time s \<or>
       (\<exists>v. Hubble_time_set v \<in> set cs)"
    using timed_write [of e req flags] unfolding timed_def by blast
  have "lock_depth cs = 0"
    by (rule lock_depth_none) (use cs(2) quiet_no_mutex in \<open>auto simp: list_all_iff\<close>)
  with cs show ?thesis
    using quiet_handler by (auto simp: handler_adds_def list_all_iff)
qed

lemma disconnected_adds:
  "\<exists>cs. calls (exec disconnected_cb s) = calls s @ cs \<and>
    handler_adds h s cs (g_utc_time (exec disconnected_cb s))"
  by (auto simp: disconnected_cb_def handler_adds_def)

lemma shell_adds:
  assumes "handler_enabled (Shell_line argv) s" and "shell_command e argv = Some m"
  shows "\<exists>cs. calls (exec m s) = calls s @ cs \<and> handler_adds h s cs (g_utc_time (exec m s))"
proof (cases "hd argv = ''bluetooth''")
  case False
  with assms(2) show ?thesis by (intro quiet_adds frames_shell_command)
next
  case True
  with assms have free: "radio_free s" and m: "m = cmd_ble e argv"
    by (auto simp: shell_command_def split: if_splits)
  have quiet: "frames quiet (cmd_ble e argv :: (ble_state, int) state)"
    if "\<not> (length argv = 2 \<and> argv ! 1 \<in> {''enable'', ''disable''})"
    using that by (auto simp: cmd_ble_def intro!: frames_intros)
  show ?thesis
  proof (cases "length argv = 2 \<and> argv ! 1 \<in> {''enable'', ''disable''}")
    case False
    show ?thesis unfolding m by (rule quiet_adds [OF quiet [OF False]])
  next
    case True
    with m enable_adds [of s e True, OF _ free] disable_adds [of s True, OF _ free]
    show ?thesis by (auto simp: cmd_ble_def split: prod.splits)
  qed
qed

lemma handler_effect:
  assumes "handler_enabled h s"
  shows "\<exists>cs. calls (exec (handler_op e h) s) = calls s @ cs \<and>
    handler_adds h s cs (g_utc_time (exec (handler_op e h) s))"
proof (cases h)
  case (Gatt_write req flags)
  with write_adds [of e req flags s] show ?thesis by (auto split: prod.splits)
next
  case (Shell_line argv)
  show ?thesis
  proof (cases "shell_command e argv :: (ble_state, int) state option")
    case None
    with Shell_line quiet_adds [OF frames_return] show ?thesis by simp
  next
    case (Some m)
    with Shell_line shell_adds [OF _ Some, of s] assms show ?thesis
      by (auto split: prod.splits)
  qed
next
  case Disconnected
  with disconnected_adds [of s] show ?thesis by simp
next
  case Button_worker
  with button_adds [of s e] assms show ?thesis by simp
next
  case Sat_expired
  then show ?thesis by (auto simp: timer_cb_def handler_adds_def)
qed (auto intro!: quiet_adds frames_intros)

end
