(* ===== verification/App_Invariants.thy ===== *)
theory App_Invariants
  imports App_System
begin

text \<open>
  Invariants of the interleaved application core: who holds the radio mutex, what the mark
  says, and what is known before the first transmission.
\<close>

section \<open>The effect of a segment\<close>

text \<open>Where a segment can lead.\<close>

fun main_next :: "main_pc \<Rightarrow> main_pc set" where
  "main_next Boot = insert Wait_init (range Returned)"
| "main_next Wait_init = {Wait_key}"
| "main_next Wait_key = {Start}"
| "main_next Start = insert Schedule (range Returned)"
| "main_next Schedule = {Enable_ble}"
| "main_next Enable_ble = {Wait_timer}"
| "main_next Wait_timer = {Disable_ble}"
| "main_next Disable_ble = {Lock_radio}"
| "main_next Lock_radio = {Start_sat}"
| "main_next Start_sat = {Wait_bound, Stop_sat}"
| "main_next Wait_bound = {Transmit, Stop_sat}"
| "main_next Transmit = {Stop_sat}"
| "main_next Stop_sat = {Unlock_radio}"
| "main_next Unlock_radio = {Restore_mark}"
| "main_next Restore_mark = {Schedule}"
| "main_next (Returned r) = {Returned r}"

lemma result_bind: "result (State_Monad.bind m f) s = result (f (result m s)) (exec m s)"
  by (simp split: prod.splits)

lemma exec_bind: "exec (State_Monad.bind m f) s = exec (f (result m s)) (exec m s)"
  by (simp split: prod.splits)

lemma main_boot_next: "result (main_boot e) s \<in> main_next Boot"
  by (auto simp: main_boot_def main_bt_start_def result_bind simp del: run_state_bind)

lemma main_start_next: "result (main_start e) s \<in> main_next Start"
  by (auto simp: main_start_def result_bind simp del: run_state_bind)

lemma main_step_next:
  assumes "run_state (main_step e fuel pc) s = (Some pc', s')"
  shows "pc' \<in> main_next pc"
proof -
  have "result (main_step e fuel pc) s = Some pc'" using assms by simp
  then show ?thesis
    using main_boot_next [of e s] main_start_next [of e s]
    by (cases pc) (auto simp: result_bind simp del: run_state_bind split: if_splits)
qed

lemma main_step_calls:
  assumes "run_state (main_step e fuel pc) s = (Some pc', s')"
  obtains cs where "calls s' = calls s @ cs" and "list_all (main_calls pc) cs"
    and "g_utc_time s' = g_utc_time s"
proof -
  have "s' = exec (main_step e fuel pc) s" using assms by simp
  then show thesis
    using frames_main_step [of pc e fuel, THEN framesE, of s] that by metis
qed

text \<open>Only two segments change who has the mutex.\<close>

lemma main_step_lock:
  assumes "run_state (main_step e fuel pc) s = (Some pc', s')"
  shows "lock_depth (calls s') = lock_depth (calls s) +
    (if pc = Lock_radio then 1 else if pc = Unlock_radio then - 1 else 0)"
proof -
  obtain cs where cs: "calls s' = calls s @ cs" "list_all (main_calls pc) cs"
    using assms by (rule main_step_calls)
  have quiet: "lock_depth cs = 0" if "\<And>c. main_calls pc c \<Longrightarrow> \<not> is_mutex_op c"
    by (rule lock_depth_none) (use cs(2) that in \<open>auto simp: list_all_iff\<close>)
  have s': "s' = exec (main_step e fuel pc) s" using assms by simp
  consider (on) "pc = Enable_ble" | (off) "pc = Disable_ble" | (lock) "pc = Lock_radio"
    | (unlock) "pc = Unlock_radio"
    | (other) "pc \<notin> {Enable_ble, Disable_ble, Lock_radio, Unlock_radio}" by blast
  then show ?thesis
  proof cases
    case on
    with s' enable_section.section_balanced [of e False s] show ?thesis
      by (simp add: exec_bind del: run_state_bind)
  next
    case off
    with s' disable_section.section_balanced [of False s] show ?thesis
      by (simp add: exec_bind del: run_state_bind)
  next
    case other
    have "\<not> is_mutex_op c" if "main_calls pc c" for c
      using that other quiet_no_mutex [of c] by (cases pc; cases c) auto
    with quiet other cs(1) show ?thesis by simp
  qed (use assms in auto)
qed

text \<open>Three segments write the mark.\<close>

lemma mark_after_const:
  "list_all (\<lambda>c. \<forall>w. c = Mark_write w \<longrightarrow> w = u) cs \<Longrightarrow>
   mark_after v cs = (if \<exists>w. Mark_write w \<in> set cs then u else v)"
  by (induction cs arbitrary: v) (auto split: call.splits)

lemma exec_grows:
  fixes m :: "('a ble_state_scheme, 'b) state"
  shows "frames A m \<Longrightarrow> c \<in> set (calls s) \<Longrightarrow> c \<in> set (calls (exec m s))"
  by (metis framesE Un_iff set_append)

lemma boot_writes_mark:
  assumes "run_state (main_boot e) s = (pc, s')" and "calls s' = calls s @ cs"
  shows "Mark_write 1 \<in> set cs"
proof -
  let ?s1 = "exec (main_load_key e) s"
  let ?s2 = "?s1\<lparr>calls := calls ?s1 @ [Mark_write 1]\<rparr>"
  obtain ds where ds: "calls ?s1 = calls s @ ds"
    using frames_load_key by (rule framesE)
  obtain es where es: "calls (exec (main_bt_start e) ?s2) = calls ?s2 @ es"
    using frames_bt_start by (rule framesE)
  have "s' = exec (main_boot e) s" using assms(1) by simp
  also have "\<dots> = exec (main_bt_start e) ?s2"
    by (simp add: main_boot_def exec_bind cpunet_stack_mark_def del: run_state_bind)
  finally have "calls s' = calls s @ ds @ Mark_write 1 # es" using ds es by simp
  with assms(2) have "cs = ds @ Mark_write 1 # es" by simp
  then show ?thesis by simp
qed

lemma main_step_mark:
  assumes "run_state (main_step e fuel pc) s = (Some pc', s')"
  shows "mark_after v (calls s') =
    (if pc \<in> {Boot, Restore_mark} then 1 else if pc = Start_sat then 0
     else mark_after v (calls s))"
proof -
  obtain cs where cs: "calls s' = calls s @ cs" "list_all (main_calls pc) cs"
    using assms by (rule main_step_calls)
  let ?u = "if pc = Start_sat then 0 else 1 :: u32"
  have "main_calls pc (Mark_write w) \<Longrightarrow> w = ?u" for w by (cases pc) auto
  with cs(2) have "list_all (\<lambda>c. \<forall>w. c = Mark_write w \<longrightarrow> w = ?u) cs"
    by (auto simp: list_all_iff)
  note mark = mark_after_const [OF this]
  consider (boot) "pc = Boot" | (start) "pc = Start_sat" | (restore) "pc = Restore_mark"
    | (other) "pc \<notin> {Boot, Start_sat, Restore_mark}" by blast
  then show ?thesis
  proof cases
    case boot
    with assms obtain r where "run_state (main_boot e) s = (r, s')"
      by (auto split: prod.splits)
    from boot_writes_mark [OF this cs(1)] boot cs(1) mark show ?thesis by auto
  next
    case other
    have "\<not> main_calls pc (Mark_write w)" for w using other by (cases pc) auto
    then have "\<not> (\<exists>w. Mark_write w \<in> set cs)"
      using cs(2) by (auto simp: list_all_iff)
    with other cs(1) mark show ?thesis by simp
  next
    case start
    with assms show ?thesis
      by (auto simp: sat_endpoint_open_def cpunet_stack_mark_def split: if_splits)
  next
    case restore
    with assms show ?thesis by (auto simp: cpunet_stack_mark_def)
  qed
qed

section \<open>The invariants\<close>

definition radio_inv :: "main_pc \<Rightarrow> ble_state \<Rightarrow> bool" where
  "radio_inv pc s \<longleftrightarrow> lock_depth (calls s) = (if holds_radio pc then 1 else 0)"

definition mark_inv :: "u32 \<Rightarrow> main_pc \<Rightarrow> ble_state \<Rightarrow> bool" where
  "mark_inv v pc s \<longleftrightarrow> pc = Boot \<or> mark_after v (calls s) = (if marks_sat pc then 0 else 1)"

lemma frames_system_init: "frames quiet (system_init e)"
proof -
  have "frames quiet (nvs_init e)"
    unfolding nvs_init_def by (intro frames_intros frames_modify) simp_all
  moreover have "frames quiet (button_init e)"
    unfolding button_init_def by (intro frames_intros) simp_all
  ultimately show ?thesis
    unfolding system_init_def by (intro frames_intros)
qed

lemma initial_calls:
  "list_all quiet (calls (exec (system_init e) (initial_state e)))"
  "g_utc_time (exec (system_init e) (initial_state e)) = 0"
proof -
  obtain cs where "calls (exec (system_init e) (initial_state e)) =
      calls (initial_state e) @ cs" "list_all quiet cs"
      "g_utc_time (exec (system_init e) (initial_state e)) = g_utc_time (initial_state e)"
    using frames_system_init by (rule framesE)
  moreover have "calls (initial_state e) = []" "g_utc_time (initial_state e) = 0"
    by (simp_all add: initial_state_def)
  ultimately show "list_all quiet (calls (exec (system_init e) (initial_state e)))"
    and "g_utc_time (exec (system_init e) (initial_state e)) = 0" by simp_all
qed

lemma handler_mark:
  assumes "handler_adds h s cs t"
  shows "mark_after v cs = v"
proof -
  have "\<not> (\<exists>w. Mark_write w \<in> set cs)"
    using assms by (auto simp: handler_adds_def list_all_iff)
  moreover from this have "list_all (\<lambda>c. \<forall>w. c = Mark_write w \<longrightarrow> w = v) cs"
    by (auto simp: list_all_iff)
  ultimately show ?thesis by (simp add: mark_after_const)
qed

lemma reach_radio:
  assumes "app_reach e fuel P (pc, s)"
  shows "radio_inv pc s"
  using assms
proof (rule app_reach_invariant [where I = radio_inv])
  fix pc pc' :: main_pc and s s' :: ble_state and h
  have "list_all (\<lambda>c. \<not> is_mutex_op c) (calls (exec (system_init e) (initial_state e)))"
    using initial_calls [of e] quiet_no_mutex by (auto simp: list_all_iff)
  then show "radio_inv Boot (exec (system_init e) (initial_state e))"
    by (simp add: radio_inv_def holds_radio_def lock_depth_none)
  show "radio_inv pc s \<Longrightarrow> handler_enabled h s \<Longrightarrow> radio_inv pc (exec (handler_op e h) s)"
    using handler_effect [of h s e] by (auto simp: radio_inv_def handler_adds_def)
  show "radio_inv pc' s'" if "radio_inv pc s" "run_state (main_step e fuel pc) s = (Some pc', s')"
    using that(1) main_step_lock [OF that(2)] main_step_next [OF that(2)]
    by (cases pc) (auto simp: radio_inv_def holds_radio_def)
qed

lemma reach_mark:
  assumes "app_reach e fuel P (pc, s)"
  shows "mark_inv v pc s"
  using assms
proof (rule app_reach_invariant [where I = "mark_inv v"])
  fix pc pc' :: main_pc and s s' :: ble_state and h
  show "mark_inv v Boot (exec (system_init e) (initial_state e))" by (simp add: mark_inv_def)
  show "mark_inv v pc s \<Longrightarrow> handler_enabled h s \<Longrightarrow> mark_inv v pc (exec (handler_op e h) s)"
    using handler_effect [of h s e] handler_mark by (fastforce simp: mark_inv_def)
  show "mark_inv v pc' s'"
    if "mark_inv v pc s" "run_state (main_step e fuel pc) s = (Some pc', s')"
    using that(1) main_step_mark [OF that(2), of v] main_step_next [OF that(2)]
    by (cases pc) (auto simp: mark_inv_def marks_sat_def)
qed

text \<open>
  What is known before the main thread goes on: the time was given to the SDK before the
  wait for it ends, and a key was loaded or accepted before the wait for it ends.
\<close>

definition time_known :: "ble_state \<Rightarrow> bool" where
  "time_known s \<longleftrightarrow> (\<exists>v. Hubble_time_set v \<in> set (calls s))"

definition past_init :: "main_pc \<Rightarrow> bool" where
  "past_init pc \<longleftrightarrow> pc \<notin> {Boot, Wait_init} \<union> range Returned"

definition past_key :: "main_pc \<Rightarrow> bool" where
  "past_key pc \<longleftrightarrow> pc \<notin> {Boot, Wait_init, Wait_key} \<union> range Returned"

definition time_inv :: "main_pc \<Rightarrow> ble_state \<Rightarrow> bool" where
  "time_inv pc s \<longleftrightarrow> (g_utc_time s \<noteq> 0 \<longrightarrow> time_known s) \<and>
     (Sem_give Init_sem \<in> set (calls s) \<longrightarrow> time_known s) \<and>
     (past_init pc \<longrightarrow> time_known s) \<and>
     (past_key pc \<longrightarrow> Sem_give Key_sem \<in> set (calls s))"

lemma time_known_mono: "time_known s \<Longrightarrow> calls s' = calls s @ cs \<Longrightarrow> time_known s'"
  by (auto simp: time_known_def)

lemma no_init_give: "main_calls pc c \<Longrightarrow> c \<noteq> Sem_give Init_sem"
  by (cases pc) auto

lemma reach_time:
  assumes "app_reach e fuel P (pc, s)"
  shows "time_inv pc s"
  using assms
proof (rule app_reach_invariant [where I = time_inv])
  fix pc pc' :: main_pc and s s' :: ble_state and h
  show "time_inv Boot (exec (system_init e) (initial_state e))"
    using initial_calls [of e]
    by (auto simp: time_inv_def past_init_def past_key_def list_all_iff)
  show "time_inv pc (exec (handler_op e h) s)" if inv: "time_inv pc s" and en: "handler_enabled h s"
  proof -
    obtain cs where cs: "calls (exec (handler_op e h) s) = calls s @ cs"
        "handler_adds h s cs (g_utc_time (exec (handler_op e h) s))"
      using handler_effect [OF en] by blast
    show ?thesis
      using inv cs(2) time_known_mono [OF _ cs(1)] cs(1)
      by (auto simp: time_inv_def handler_adds_def time_known_def)
  qed
  show "time_inv pc' s'"
    if inv: "time_inv pc s" and en: "main_enabled pc s"
      and st: "run_state (main_step e fuel pc) s = (Some pc', s')"
  proof -
    obtain cs where cs: "calls s' = calls s @ cs" "list_all (main_calls pc) cs"
        "g_utc_time s' = g_utc_time s"
      using st by (rule main_step_calls)
    have "Sem_give Init_sem \<notin> set cs"
      using cs(2) no_init_give by (auto simp: list_all_iff)
    moreover have "past_init pc' \<Longrightarrow> past_init pc \<or> Sem_give Init_sem \<in> set (calls s)"
      using main_step_next [OF st] en sem_avail_given [of Init_sem s]
      by (cases pc) (auto simp: past_init_def)
    moreover have "past_key pc' \<Longrightarrow> past_key pc \<or> Sem_give Key_sem \<in> set (calls s)"
      using main_step_next [OF st] en sem_avail_given [of Key_sem s]
      by (cases pc) (auto simp: past_key_def)
    ultimately show ?thesis
      using inv cs(1,3) time_known_mono [OF _ cs(1)] by (auto simp: time_inv_def)
  qed
qed

end
