(* ===== verification/App_Run.thy ===== *)
theory App_Run
  imports App_Invariants Sample
begin

text \<open>
  Running the interleaved system along a given schedule of events, and one complete
  schedule: from reset through provisioning and the first satellite window.
\<close>

section \<open>Schedules\<close>

datatype event = Main | Ev handler

fun run_event :: "env \<Rightarrow> nat \<Rightarrow> event \<Rightarrow> main_pc \<times> ble_state \<Rightarrow> (main_pc \<times> ble_state) option" where
  "run_event e fuel Main (pc, s) =
     (if main_enabled pc s
      then (case run_state (main_step e fuel pc) s of
              (Some pc', s') \<Rightarrow> Some (pc', s') | (None, _) \<Rightarrow> None)
      else None)"
| "run_event e fuel (Ev h) (pc, s) =
     (if handler_enabled h s then Some (pc, exec (handler_op e h) s) else None)"

fun run_events ::
    "env \<Rightarrow> nat \<Rightarrow> event list \<Rightarrow> main_pc \<times> ble_state \<Rightarrow> (main_pc \<times> ble_state) option" where
  "run_events e fuel [] c = Some c"
| "run_events e fuel (ev # evs) c = (case run_event e fuel ev c of
     None \<Rightarrow> None | Some c' \<Rightarrow> run_events e fuel evs c')"

fun event_ok :: "(handler \<Rightarrow> bool) \<Rightarrow> event \<Rightarrow> bool" where
  "event_ok P Main = True"
| "event_ok P (Ev h) = P h"

lemma run_event_step:
  "run_event e fuel ev c = Some c' \<Longrightarrow> event_ok P ev \<Longrightarrow> app_step e fuel P c c'"
  by (cases ev; cases c)
    (auto split: if_splits prod.splits option.splits intro: app_step.intros)

lemma run_events_reach:
  "run_events e fuel evs c = Some c' \<Longrightarrow> list_all (event_ok P) evs \<Longrightarrow>
   app_reach e fuel P c \<Longrightarrow> app_reach e fuel P c'"
proof (induction evs arbitrary: c)
  case Nil
  then show ?case by simp
next
  case (Cons ev evs)
  then show ?case
    using run_event_step [of e fuel ev c _ P]
    by (auto split: option.splits intro: app_reach.step)
qed

lemma run_events_append:
  "run_events e fuel (evs @ evs') c = (case run_events e fuel evs c of
     None \<Rightarrow> None | Some c' \<Rightarrow> run_events e fuel evs' c')"
  by (induction evs arbitrary: c) (auto split: option.splits)

section \<open>The satellite phase\<close>

text \<open>
  The main thread from its wait for the timer up to the transmission, with the endpoint
  bound when it waits for it: it only makes calls, and ends before the transmission or,
  when the network core could not be started, before the clean-up.
\<close>

definition phase_start :: "event list" where
  "phase_start = [Main, Main, Main, Main]"

definition phase_bind :: "event list" where
  "phase_bind = [Ev Ipc_bound, Main]"

lemma radio_free_log: "radio_free (s\<lparr>calls := cs\<rparr>) \<longleftrightarrow> lock_depth cs = 0"
  by (simp add: radio_free_def)

definition phase_log :: "call list \<Rightarrow> call list" where
  "phase_log h = h @ [Sem_take Timer_sem Forever, Mutex_lock Radio_mutex, Adv_stop,
     Timer_stop Ble_timer, Bt_disable, Mutex_unlock Radio_mutex, Mutex_lock Radio_mutex,
     Mark_write 0, Cpunet_enable True, Ipc_open]"

lemma phase_start_eq:
  assumes "sem_avail Timer_sem s" and "radio_free s"
  defines "h \<equiv> phase_log (calls s)"
  shows "run_events e fuel phase_start (Wait_timer, s) =
    (if o_ipc_open e h < 0 \<and> o_ipc_open e h \<noteq> - EALREADY e then Some (Stop_sat, s\<lparr>calls := h\<rparr>)
     else if o_ipc_register e (h @ [Ipc_register]) < 0
     then Some (Stop_sat, s\<lparr>calls := h @ [Ipc_register]\<rparr>)
     else Some (Wait_bound, s\<lparr>calls := h @ [Ipc_register]\<rparr>))"
proof -
  have "lock_depth (calls s) = 0" using assms(2) by (simp add: radio_free_def)
  then show ?thesis
    using assms(1,2) by (simp add: h_def phase_log_def phase_start_def ble_disable_def
        ble_adv_stop_def radio_free_log sat_endpoint_open_def cpunet_stack_mark_def)
qed

lemma phase_start_run:
  assumes "sem_avail Timer_sem s" and "radio_free s"
  shows "\<exists>pc cs. pc \<in> {Wait_bound, Stop_sat} \<and>
    (\<forall>fuel. run_events e fuel phase_start (Wait_timer, s) =
       Some (pc, s\<lparr>calls := calls s @ cs\<rparr>))"
  unfolding phase_start_eq [OF assms] phase_log_def by (metis append_assoc insertCI)

lemma phase_bind_eq:
  fixes s :: ble_state
  defines "h \<equiv> calls s @ [Sem_give Bound_sem, Sem_take Bound_sem Forever, Ipc_send (base_msg SAT_CMD_INIT)]"
  shows "run_events e fuel phase_bind (Wait_bound, s) =
    (let t = h @ [Sem_take Sat_sem (Seconds IPC_TIMEOUT_S)] in
     if o_ipc_send e h < 0 then Some (Stop_sat, s\<lparr>calls := h\<rparr>)
     else if o_sem_take e t < 0 then Some (Stop_sat, s\<lparr>calls := t\<rparr>)
     else Some (Transmit, s\<lparr>calls := t\<rparr>))"
  by (simp add: h_def phase_bind_def ep_bound_def sem_avail_def sat_endpoint_init_def
      ipc_send_def Let_def)

lemma phase_bind_run:
  "\<exists>pc cs. pc \<in> {Transmit, Stop_sat} \<and>
    (\<forall>fuel. run_events e fuel phase_bind (Wait_bound, s) =
       Some (pc, s\<lparr>calls := calls s @ cs\<rparr>))"
  unfolding phase_bind_eq Let_def by (metis append_assoc insertCI)

text \<open>A transmission ends, in both builds.\<close>

definition can_transmit :: "env \<Rightarrow> 'a sat_state_scheme \<Rightarrow> bool" where
  "can_transmit e s \<longleftrightarrow> cfg_pass_prediction e \<or>
     clock_ok e \<and> 0 < unat (g_retransmission_frequency_s s)"

lemma sat_transmit_ends:
  assumes "headers_ok e" and "app_ok e s" and "can_transmit e s"
  shows "\<exists>k. \<forall>fuel\<ge>k. result (sat_transmit e fuel) s \<noteq> None"
proof -
  have b: "board_ok e s" "table_inv s" using assms(2) by (simp_all add: app_ok_def)
  obtain buf len cs rp pkt where t: "\<forall>fuel. run_state (sat_transmit e fuel) s =
       (if rp \<noteq> 0 then (Some rp, s\<lparr>calls := calls s @ cs @ [Packet_get buf len]\<rparr>)
        else run_state (transmit_packet e fuel pkt)
               (s\<lparr>calls := calls s @ cs @ [Packet_get buf len]\<rparr>))"
    using sat_transmit_run [OF assms(1) b(1)] by blast
  let ?s = "s\<lparr>calls := calls s @ cs @ [Packet_get buf len]\<rparr>"
  have "\<exists>k. \<forall>fuel\<ge>k. result (transmit_packet e fuel pkt) ?s \<noteq> None"
  proof (cases "cfg_pass_prediction e")
    case True
    have "result (transmit_packet e fuel pkt) ?s \<noteq> None" for fuel
      by (rule transmit_packet_prediction [OF True, of ?s pkt fuel]) simp
    then show ?thesis by blast
  next
    case False
    then have "queue_ok e ?s" "clock_ok e" "0 < unat (g_retransmission_frequency_s ?s)"
      using b(2) assms(3) by (auto simp: queue_ok_def table_inv_def can_transmit_def)
    from transmit_packet_window [OF this(1,2) refl this(3), of pkt]
    show ?thesis by (metis fst_conv option.distinct(1))
  qed
  then obtain k where "\<forall>fuel\<ge>k. result (transmit_packet e fuel pkt) ?s \<noteq> None" by blast
  with t have "\<forall>fuel\<ge>k. result (sat_transmit e fuel) s \<noteq> None" by simp
  then show ?thesis by blast
qed

text \<open>From the clean-up back to the schedule.\<close>

lemma phase_end_run:
  "\<exists>cs. (\<forall>fuel. run_events e fuel [Main, Main, Main] (Stop_sat, s) =
     Some (Schedule, s\<lparr>calls := calls s @ cs\<rparr>)) \<and>
     lock_depth cs = - 1 \<and> (\<forall>v. mark_after v cs = 1)"
proof -
  have "logs (\<lambda>c. c \<in> {Ipc_deregister, Ipc_close, Cpunet_enable False}) (sat_disable e)"
    unfolding sat_disable_def by (intro logs_intros) simp_all
  then obtain r ds where d: "run_state (sat_disable e) s = (r, s\<lparr>calls := calls s @ ds\<rparr>)"
      "list_all (\<lambda>c. c \<in> {Ipc_deregister, Ipc_close, Cpunet_enable False}) ds"
    by (rule logsE)
  let ?cs = "ds @ [Mutex_unlock Radio_mutex, Mark_write 1]"
  have "lock_depth ds = 0"
    by (rule lock_depth_none, rule list.pred_mono_strong [OF d(2)]) auto
  then have "lock_depth ?cs = - 1" "mark_after v ?cs = 1" for v by simp_all
  moreover have "run_events e fuel [Main, Main, Main] (Stop_sat, s) =
      Some (Schedule, s\<lparr>calls := calls s @ ?cs\<rparr>)" for fuel
    using d(1) by (simp add: cpunet_stack_mark_def)
  ultimately show ?thesis by blast
qed

text \<open>The whole phase, whatever the network core and the SDK answer.\<close>

lemma run_events_seq:
  "run_events e fuel evs c = Some c' \<Longrightarrow> run_events e fuel evs' c' = Some c'' \<Longrightarrow>
   run_events e fuel (evs @ evs') c = Some c''"
  by (simp add: run_events_append)

text \<open>Up to the clean-up: through the transmission when the network core started.\<close>

lemma phase_to_stop:
  fixes s :: ble_state
  assumes "sem_avail Timer_sem s" and "radio_free s"
  shows "\<exists>cs. \<forall>fuel. result (sat_transmit e fuel) (s\<lparr>calls := calls s @ cs\<rparr>) \<noteq> None \<longrightarrow>
    (\<exists>evs s'. set evs \<subseteq> {Main, Ev Ipc_bound} \<and>
       run_events e fuel evs (Wait_timer, s) = Some (Stop_sat, s'))"
proof -
  obtain pc1 cs1 where 1: "pc1 \<in> {Wait_bound, Stop_sat}"
      "\<And>fuel. run_events e fuel phase_start (Wait_timer, s) = Some (pc1, s\<lparr>calls := calls s @ cs1\<rparr>)"
    using phase_start_run [OF assms] by blast
  let ?s1 = "s\<lparr>calls := calls s @ cs1\<rparr>"
  obtain pc2 cs2 where 2: "pc2 \<in> {Transmit, Stop_sat}"
      "\<And>fuel. run_events e fuel phase_bind (Wait_bound, ?s1) =
         Some (pc2, ?s1\<lparr>calls := calls ?s1 @ cs2\<rparr>)"
    using phase_bind_run by blast
  let ?s2 = "?s1\<lparr>calls := calls ?s1 @ cs2\<rparr>"
  have evs: "set phase_start \<subseteq> {Main, Ev Ipc_bound}" "set phase_bind \<subseteq> {Main, Ev Ipc_bound}"
    by (auto simp: phase_start_def phase_bind_def)
  have "\<exists>evs s'. set evs \<subseteq> {Main, Ev Ipc_bound} \<and>
      run_events e fuel evs (Wait_timer, s) = Some (Stop_sat, s')"
    if "result (sat_transmit e fuel) ?s2 \<noteq> None" for fuel
  proof -
    have tx: "run_events e fuel [Main] (Transmit, ?s2) = Some (Stop_sat, exec (sat_transmit e fuel) ?s2)"
      using that by (auto split: prod.splits)
    consider (unbound) "pc1 = Stop_sat" | (refused) "pc1 = Wait_bound" "pc2 = Stop_sat"
      | (sent) "pc1 = Wait_bound" "pc2 = Transmit" using 1(1) 2(1) by blast
    then show ?thesis
    proof cases
      case unbound
      then show ?thesis using 1(2) [of fuel] evs by blast
    next
      case refused
      with run_events_seq [OF 1(2) [of fuel], of phase_bind] 2(2) [of fuel] evs
      show ?thesis by (intro exI [of _ "phase_start @ phase_bind"] exI [of _ ?s2]) simp
    next
      case sent
      with run_events_seq [OF 1(2) [of fuel], of phase_bind] 2(2) [of fuel]
      have "run_events e fuel (phase_start @ phase_bind) (Wait_timer, s) = Some (Transmit, ?s2)"
        by simp
      from run_events_seq [OF this tx] evs show ?thesis
        by (intro exI [of _ "(phase_start @ phase_bind) @ [Main]"]
            exI [of _ "exec (sat_transmit e fuel) ?s2"]) simp
    qed
  qed
  then show ?thesis by (intro exI [of _ "cs1 @ cs2"]) simp
qed

text \<open>The whole phase.\<close>

lemma phase_completes:
  fixes s :: ble_state
  assumes "headers_ok e" and "app_ok e s" and "can_transmit e s"
    and "sem_avail Timer_sem s" and "radio_free s"
  shows "\<exists>k. \<forall>fuel\<ge>k. \<exists>evs s'. set evs \<subseteq> {Main, Ev Ipc_bound} \<and>
    run_events e fuel evs (Wait_timer, s) = Some (Stop_sat, s')"
proof -
  obtain cs where cs: "\<forall>fuel. result (sat_transmit e fuel) (s\<lparr>calls := calls s @ cs\<rparr>) \<noteq> None \<longrightarrow>
      (\<exists>evs s'. set evs \<subseteq> {Main, Ev Ipc_bound} \<and>
         run_events e fuel evs (Wait_timer, s) = Some (Stop_sat, s'))"
    using phase_to_stop [OF assms(4,5)] by blast
  have "app_ok e (s\<lparr>calls := calls s @ cs\<rparr>)" "can_transmit e (s\<lparr>calls := calls s @ cs\<rparr>)"
    using assms(2,3) by (simp_all add: app_ok_defs can_transmit_def)
  with sat_transmit_ends [OF assms(1)] cs show ?thesis by blast
qed

lemma transmit_always_returns:
  assumes "headers_ok e" and "app_ok e s" and "cfg_pass_prediction e"
  shows "result (sat_transmit e fuel) s \<noteq> None"
proof -
  have b: "board_ok e s" using assms(2) by (simp add: app_ok_def)
  obtain buf len cs rp pkt where t: "\<forall>fuel. run_state (sat_transmit e fuel) s =
       (if rp \<noteq> 0 then (Some rp, s\<lparr>calls := calls s @ cs @ [Packet_get buf len]\<rparr>)
        else run_state (transmit_packet e fuel pkt)
               (s\<lparr>calls := calls s @ cs @ [Packet_get buf len]\<rparr>))"
    using sat_transmit_run [OF assms(1) b] by blast
  have "result (transmit_packet e fuel pkt) s' \<noteq> None" for s' :: "'a ble_state_scheme"
    by (rule transmit_packet_prediction [OF assms(3), of s' pkt fuel]) simp
  with t show ?thesis by simp
qed

section \<open>Provisioning\<close>

text \<open>A device with a stored key whose Bluetooth stack and SDK start.\<close>

definition starts_up :: "env \<Rightarrow> bool" where
  "starts_up e \<longleftrightarrow> (\<forall>h. o_bt_enable e h = 0 \<and> o_adv_start e h = 0 \<and> o_hubble_init e h = 0 \<and>
     o_satellites_set e h = 0 \<and> fst (o_nvs_read e h) = int (cfg_key_size e))"

definition provisioning :: "u64 \<Rightarrow> event list" where
  "provisioning t = [Main, Ev Connected, Ev (Gatt_write (encode_utc t) 0), Ev Disconnected,
     Main, Main, Main]"

lemma boot_run:
  assumes "starts_up e"
  shows "run_state (main_boot e) s =
    (Wait_init, s\<lparr>calls := calls s @ [Nvs_read 0 (cfg_key_size e), Sem_give Key_sem, Mark_write 1,
       Bt_enable, Adv_start [USE_NRPA, OPT_CONN] FAST_INT_MIN_2 FAST_INT_MAX_2
         (take 2 (g_app_ad s)) (ble_sd e)],
       g_hubble_key := blit (g_hubble_key s) 0 (take (cfg_key_size e)
         (snd (o_nvs_read e (calls s @ [Nvs_read 0 (cfg_key_size e)]))))\<rparr>)"
  using assms
  by (simp add: main_boot_def main_load_key_def main_bt_start_def key_get_def hubble_nvs_read_def
      cpunet_stack_mark_def ble_init_def starts_up_def split: prod.splits) (metis fst_conv)

lemma provisioning_run:
  assumes "starts_up e" and "radio_free s" and "\<And>h. word_of_int (o_uptime e h) \<noteq> t"
  shows "\<exists>s'. run_events e fuel (provisioning t) (Boot, s) = Some (Schedule, s') \<and> radio_free s'"
proof -
  have up: "o_hubble_init e h = 0" "o_satellites_set e h = 0"
    "t - word_of_int (o_uptime e h) \<noteq> 0" for h
    using assms(1,3) by (auto simp: starts_up_def)
  have w: "run_state (chr_write_cb e (encode_utc t) 0) s' =
     (10, s'\<lparr>calls := calls s' @ [Hubble_time_set t, Uptime_get], g_utc_time :=
        t - word_of_int (o_uptime e (calls s' @ [Hubble_time_set t, Uptime_get]))\<rparr>)" for s' :: ble_state
    by (rule chr_write_utc) simp
  show ?thesis
    using assms(2) up
    by (simp add: provisioning_def boot_run [OF assms(1)] connected_cb_def w disconnected_cb_def
        sem_avail_def main_start_def radio_free_def)
qed

text \<open>Then the main thread schedules, starts to advertise and waits for the timer.\<close>

definition can_schedule :: "env \<Rightarrow> nat \<Rightarrow> bool" where
  "can_schedule e fuel \<longleftrightarrow> \<not> cfg_pass_prediction e \<or> (\<exists>D<fuel. sdk_passes_ok e D)"

lemma schedule_returns:
  assumes "can_schedule e fuel" and "app_ok e s"
  shows "result (sat_schedule_next_transmission e fuel) s \<noteq> None"
proof (cases "cfg_pass_prediction e")
  case False
  with assms(2) have "queue_ok e s" by (simp add: app_ok_def queue_ok_def)
  then show ?thesis by (simp add: pass_table.schedule_result)
next
  case True
  with assms(1) obtain D where "D < fuel" "sdk_passes_ok e D" by (auto simp: can_schedule_def)
  let ?now = "o_time_get e (calls s @ [Hubble_time_get])"
  obtain r where "result (next_pass_loop e fuel ?now ?now) (s\<lparr>calls := calls s @ [Hubble_time_get]\<rparr>)
      = Some r"
    using next_pass_loop_ends [OF \<open>sdk_passes_ok e D\<close>, of ?now ?now fuel] \<open>D < fuel\<close> by auto
  with True show ?thesis
    by (auto simp: sat_schedule_next_transmission_def split: prod.splits)
qed

lemma schedule_to_timer:
  fixes s :: ble_state
  assumes "can_schedule e fuel" and "app_ok e s" and "radio_free s"
  shows "\<exists>s'. run_events e fuel [Main, Main] (Schedule, s) = Some (Wait_timer, s') \<and> radio_free s'"
proof -
  let ?s1 = "exec (sat_schedule_next_transmission e fuel) s"
  have 1: "run_event e fuel Main (Schedule, s) = Some (Enable_ble, ?s1)"
    using schedule_returns [OF assms(1,2)] by (auto split: prod.splits)
  have "radio_free ?s1"
    using main_step_lock [of e fuel Schedule s Enable_ble ?s1] 1 assms(3)
    by (auto simp: radio_free_def split: prod.splits if_splits)
  then have "run_event e fuel Main (Enable_ble, ?s1) = Some (Wait_timer, exec (ble_enable e False) ?s1)"
    by (simp split: prod.splits)
  moreover have "radio_free (exec (ble_enable e False) ?s1)"
    using \<open>radio_free ?s1\<close> by (simp add: radio_free_def enable_section.section_balanced)
  ultimately show ?thesis using 1 by (simp del: run_event.simps)
qed

end
