(* ===== verification/App_Field.thy ===== *)
theory App_Field
  imports App_Run
begin

text \<open>
  A concrete device whose whole first cycle is followed: reset, provisioning, the wait for
  a pass and the satellite phase. Its configurations show that the hypotheses of the
  system properties can hold.
\<close>

lemma run_events_app_ok:
  assumes "headers_ok e"
  shows "run_events e fuel evs (pc, s) = Some (pc', s') \<Longrightarrow> list_all (event_ok well_formed) evs \<Longrightarrow>
    app_ok e s \<Longrightarrow> app_ok e s'"
proof (induction evs arbitrary: pc s)
  case Nil
  then show ?case by simp
next
  case (Cons ev evs)
  then obtain pc1 s1 where 1: "run_event e fuel ev (pc, s) = Some (pc1, s1)"
      "run_events e fuel evs (pc1, s1) = Some (pc', s')"
    by (auto split: option.splits)
  have "app_ok e s1"
  proof (cases ev)
    case Main
    with 1(1) Cons.prems(3) keepsD [OF keeps_main_step [OF assms, of fuel pc], of s] show ?thesis
      by (auto split: if_splits prod.splits option.splits)
  next
    case (Ev h)
    with 1(1) Cons.prems(2,3) keepsD [OF keeps_handler_op [OF assms, of h], of s] show ?thesis
      by (auto split: if_splits)
  qed
  with Cons.IH 1(2) Cons.prems(2) show ?case by simp
qed

lemma length_encode_utc [simp]: "length (encode_utc t) = 10"
  by (simp add: encode_utc_def)

definition field_env :: env where
  "field_env = predicting_env\<lparr>o_nvs_read := \<lambda>_. (32, replicate 32 7),
     o_bt_is_ready := \<lambda>_. False, o_uptime := \<lambda>_. 0\<rparr>"

lemma config_ok_field: "config_ok field_env"
  by (simp add: config_ok_def headers_ok_def field_env_def predicting_env_def sample_env_def
      CUSTOM_def)

lemma starts_up_field: "starts_up field_env"
  by (simp add: starts_up_def field_env_def predicting_env_def sample_env_def)

lemma sdk_field: "sdk_passes_ok field_env 300000"
  using sdk_passes_ok_predicting by (simp add: sdk_passes_ok_def field_env_def)

lemma can_schedule_field: "300000 < fuel \<Longrightarrow> can_schedule field_env fuel"
  using sdk_field by (auto simp: can_schedule_def)

lemma can_transmit_field: "can_transmit field_env s"
  by (simp add: can_transmit_def field_env_def)

lemma radio_free_initial: "radio_free (exec (system_init e) (initial_state e))"
  using reach_radio [OF app_reach.init] by (simp add: radio_inv_def radio_free_def holds_radio_def)

text \<open>Up to the wait for the first pass.\<close>

lemma field_reaches_timer:
  assumes "300000 < fuel"
  shows "\<exists>s. app_reach field_env fuel well_formed (Wait_timer, s)"
proof -
  let ?s = "exec (system_init field_env) (initial_state field_env)"
  have h: "headers_ok field_env" using config_ok_field by (simp add: config_ok_def)
  have "word_of_int (o_uptime field_env tr) \<noteq> (1000 :: u64)" for tr
    by (simp add: field_env_def)
  from provisioning_run [OF starts_up_field radio_free_initial this, of fuel] obtain s1 where
    s1: "run_events field_env fuel (provisioning 1000) (Boot, ?s) = Some (Schedule, s1)"
      "radio_free s1" by blast
  have wf: "list_all (event_ok well_formed) (provisioning 1000)"
    by (simp add: provisioning_def)
  have ok: "app_ok field_env s1"
    by (rule run_events_app_ok [OF h s1(1) wf app_ok_initial [OF config_ok_field]])
  obtain s2 where s2: "run_events field_env fuel [Main, Main] (Schedule, s1) = Some (Wait_timer, s2)"
    using schedule_to_timer [OF can_schedule_field [OF assms] ok s1(2)] by blast
  have "app_reach field_env fuel well_formed (Schedule, s1)"
    by (rule run_events_reach [OF s1(1) wf app_reach.init])
  from run_events_reach [OF s2 _ this] show ?thesis by auto
qed

text \<open>Up to the expiry of its timer.\<close>

lemma field_timer_expired:
  assumes "300000 < fuel"
  shows "\<exists>s. app_reach field_env fuel well_formed (Wait_timer, s) \<and> sem_avail Timer_sem s"
proof -
  obtain s where s: "app_reach field_env fuel well_formed (Wait_timer, s)"
    using field_reaches_timer [OF assms] by blast
  have "app_step field_env fuel well_formed (Wait_timer, s) (Wait_timer, exec (handler_op field_env Sat_expired) s)"
    by (rule app_step.handler) simp_all
  with s have "app_reach field_env fuel well_formed (Wait_timer, exec timer_cb s)"
    by (auto intro: app_reach.step)
  then show ?thesis by (auto simp: sem_avail_def timer_cb_def)
qed

text \<open>Up to the end of the first satellite phase.\<close>

lemma field_reaches_unlock:
  assumes "300000 < fuel"
  shows "\<exists>s. app_reach field_env fuel well_formed (Unlock_radio, s)"
proof -
  have h: "headers_ok field_env" using config_ok_field by (simp add: config_ok_def)
  obtain s where t: "app_reach field_env fuel well_formed (Wait_timer, s)" "sem_avail Timer_sem s"
    using field_timer_expired [OF assms] by blast
  have free: "radio_free s" "app_ok field_env s"
    using reach_radio [OF t(1)] reach_app_ok [OF config_ok_field t(1)]
    by (simp_all add: radio_inv_def holds_radio_def radio_free_def)
  obtain cs where cs: "result (sat_transmit field_env fuel) (s\<lparr>calls := calls s @ cs\<rparr>) \<noteq> None \<longrightarrow>
      (\<exists>evs s'. set evs \<subseteq> {Main, Ev Ipc_bound} \<and>
         run_events field_env fuel evs (Wait_timer, s) = Some (Stop_sat, s'))"
    using phase_to_stop [OF t(2) free(1)] by blast
  have "app_ok field_env (s\<lparr>calls := calls s @ cs\<rparr>)"
    using free(2) by (simp add: app_ok_defs)
  then have "result (sat_transmit field_env fuel) (s\<lparr>calls := calls s @ cs\<rparr>) \<noteq> None"
    by (rule transmit_always_returns [OF h]) (simp add: field_env_def)
  with cs obtain evs s' where e: "set evs \<subseteq> {Main, Ev Ipc_bound}"
      "run_events field_env fuel evs (Wait_timer, s) = Some (Stop_sat, s')" by blast
  have "list_all (event_ok well_formed) evs"
    using e(1) by (auto simp: list_all_iff)
  from run_events_reach [OF e(2) this t(1)]
  have stop: "app_reach field_env fuel well_formed (Stop_sat, s')" .
  have "run_events field_env fuel [Main] (Stop_sat, s') =
      Some (Unlock_radio, exec (sat_disable field_env) s')"
    by (simp split: prod.splits)
  from run_events_reach [OF this _ stop] show ?thesis by auto
qed

lemma field_transmits:
  assumes "300000 < fuel"
  shows "\<exists>s s' cs pkt rel. app_reach field_env fuel well_formed (Transmit, s) \<and>
    app_step field_env fuel well_formed (Transmit, s) (Stop_sat, s') \<and>
    calls s' = calls s @ cs \<and> Packet_send pkt rel \<in> set cs"
proof -
  have h: "headers_ok field_env" using config_ok_field by (simp add: config_ok_def)
  obtain s where t: "app_reach field_env fuel well_formed (Wait_timer, s)" "sem_avail Timer_sem s"
    using field_timer_expired [OF assms] by blast
  have "radio_free s"
    using reach_radio [OF t(1)] by (simp add: radio_inv_def holds_radio_def radio_free_def)
  let ?s1 = "s\<lparr>calls := phase_log (calls s) @ [Ipc_register]\<rparr>"
  have 1: "run_events field_env fuel phase_start (Wait_timer, s) = Some (Wait_bound, ?s1)"
    unfolding phase_start_eq [OF t(2) \<open>radio_free s\<close>]
    by (simp add: field_env_def predicting_env_def sample_env_def)
  obtain s2 where 2: "run_events field_env fuel phase_bind (Wait_bound, ?s1) = Some (Transmit, s2)"
    unfolding phase_bind_eq Let_def by (simp add: field_env_def)
  have "app_reach field_env fuel well_formed (Wait_bound, ?s1)"
    by (rule run_events_reach [OF 1 _ t(1)]) (simp add: phase_start_def)
  then have r2: "app_reach field_env fuel well_formed (Transmit, s2)"
    by (rule run_events_reach [OF 2, rotated]) (simp add: phase_bind_def)
  have ok: "app_ok field_env s2" by (rule reach_app_ok [OF config_ok_field r2])
  let ?s' = "exec (sat_transmit field_env fuel) s2"
  have pp: "cfg_pass_prediction field_env" by (simp add: field_env_def)
  have "run_state (main_step field_env fuel Transmit) s2 = (Some Stop_sat, ?s')"
    using transmit_always_returns [OF h ok pp, of fuel] by (auto split: prod.splits)
  then have st: "app_step field_env fuel well_formed (Transmit, s2) (Stop_sat, ?s')"
    by (intro app_step.main) simp_all
  have b: "board_ok field_env s2" using ok by (simp add: app_ok_def)
  obtain buf len cs rp pkt where tr:
    "o_packet_get field_env (calls s2 @ cs @ [Packet_get buf len]) = (rp, pkt)"
    "run_state (sat_transmit field_env fuel) s2 =
       (if rp \<noteq> 0 then (Some rp, s2\<lparr>calls := calls s2 @ cs @ [Packet_get buf len]\<rparr>)
        else run_state (transmit_packet field_env fuel pkt)
               (s2\<lparr>calls := calls s2 @ cs @ [Packet_get buf len]\<rparr>))"
    using sat_transmit_run [OF h b] by blast
  have "rp = 0" using tr(1) by (simp add: field_env_def packet_get_reply_def)
  let ?s3 = "s2\<lparr>calls := calls s2 @ cs @ [Packet_get buf len]\<rparr>"
  obtain ls ts r where "run_state (transmit_packet field_env fuel pkt) ?s3 =
      (Some r, ?s3\<lparr>calls := calls ?s3 @ ls @ [Packet_send pkt RELIABILITY_NORMAL] @
                   (if r = 0 then ts else []), g_transmitting := (r \<noteq> 0)\<rparr>)"
    by (rule transmit_packet_prediction [OF pp])
  with tr(2) \<open>rp = 0\<close> have "calls ?s' = calls s2 @ (cs @ [Packet_get buf len] @ ls @
      [Packet_send pkt RELIABILITY_NORMAL] @ (if r = 0 then ts else []))" by simp
  moreover have "Packet_send pkt RELIABILITY_NORMAL \<in> set (cs @ [Packet_get buf len] @ ls @
      [Packet_send pkt RELIABILITY_NORMAL] @ (if r = 0 then ts else []))" by simp
  ultimately show ?thesis using r2 st by blast
qed

end
