(* ===== verification/App_Properties.thy ===== *)
theory App_Properties
  imports App_Field
begin

text \<open>
  The properties of the application core as a whole: \<^verbatim>\<open>app/src/main.c\<close> interleaved with the
  handlers of \<^verbatim>\<open>ble.c\<close>, \<^verbatim>\<open>shell.c\<close>, \<^verbatim>\<open>button.c\<close> and the timers.
\<close>

section \<open>The radio\<close>

text \<open>In every reachable configuration the radio mutex is held exactly once while the main
  thread is between its lock and its unlock in the satellite phase, and is free otherwise:
  no handler and no other part of main leaves it locked, and none takes it twice.\<close>

theorem radio_mutex_discipline:
  assumes "app_reach e fuel P (pc, s)"
  shows "lock_depth (calls s) = (if holds_radio pc then 1 else 0)"
  using reach_radio [OF assms] by (simp add: radio_inv_def)

theorem radio_mutex_discipline_witness:
  "\<exists>s. app_reach field_env 300001 well_formed (Unlock_radio, s) \<and> lock_depth (calls s) = 1"
  using field_reaches_unlock [of 300001] radio_mutex_discipline [of field_env 300001 well_formed Unlock_radio]
  by (auto simp: holds_radio_def)

text \<open>Whatever the shared word held at reset, in every reachable configuration after the boot
  it says satellite from the start of the satellite phase until main restores it, and
  Bluetooth otherwise.\<close>

theorem mark_tracks_phase:
  assumes "app_reach e fuel P (pc, s)"
  shows "pc = Boot \<or> mark_after v (calls s) = (if marks_sat pc then 0 else 1)"
  using reach_mark [OF assms, of v] by (simp add: mark_inv_def)

theorem mark_tracks_phase_witness:
  "\<exists>s. mark_after 7 (calls s) = 0 \<and> app_reach field_env 300001 well_formed (Unlock_radio, s)"
  using field_reaches_unlock [of 300001] mark_tracks_phase [of field_env 300001 well_formed Unlock_radio _ 7]
  by (auto simp: marks_sat_def)

lemma step_radio_free:
  assumes "app_step e fuel P (pc, s) (pc', s')" and "calls s' = calls s @ cs"
    and "Bt_enable \<in> set cs"
  shows "pc = Boot \<or> radio_free s"
  using assms(1)
proof (cases rule: app_step.cases)
  case main
  then obtain ds where "calls s' = calls s @ ds" "list_all (main_calls pc) ds"
    using main_step_calls by blast
  with assms(2,3) have "main_calls pc Bt_enable" by (auto simp: list_all_iff)
  with main(1) show ?thesis by (cases pc) auto
next
  case (handler h)
  then obtain ds where "calls s' = calls s @ ds" "handler_adds h s ds (g_utc_time s')"
    using handler_effect [of h s e] by blast
  with assms(2,3) show ?thesis by (simp add: handler_adds_def)
qed

text \<open>A step that enables Bluetooth finds the radio mutex free and the mark at Bluetooth,
  except in the boot, which writes the mark itself, and in one window: after main has
  released the mutex and before it restores the mark.\<close>

theorem bluetooth_enabled_with_mark:
  assumes "app_reach e fuel P (pc, s)" and "app_step e fuel P (pc, s) (pc', s')"
    and "calls s' = calls s @ cs" and "Bt_enable \<in> set cs" and "pc \<notin> {Boot, Restore_mark}"
  shows "radio_free s \<and> mark_after v (calls s) = 1"
proof -
  have free: "radio_free s" using step_radio_free [OF assms(2-4)] assms(5) by simp
  then have "\<not> holds_radio pc"
    using reach_radio [OF assms(1)] by (auto simp: radio_inv_def radio_free_def split: if_splits)
  then have "\<not> marks_sat pc" using assms(5) by (auto simp: holds_radio_def marks_sat_def)
  with reach_mark [OF assms(1), of v] assms(5) free show ?thesis by (simp add: mark_inv_def)
qed

lemma field_button_step:
  fixes s :: ble_state
  assumes "radio_free s" and "\<not> o_bt_is_ready e (calls s @ [Bt_is_ready])" and "P Button_worker"
  shows "\<exists>s' cs. app_step e fuel P (pc, s) (pc, s') \<and>
    calls s' = calls s @ [Bt_is_ready, Mutex_lock Radio_mutex, Bt_enable] @ cs"
proof -
  let ?s' = "exec (button_pressed_worker e) s"
  have "app_step e fuel P (pc, s) (pc, exec (handler_op e Button_worker) s)"
    using assms(1,3) by (intro app_step.handler) simp_all
  moreover have "\<exists>cs. calls ?s' = calls s @ [Bt_is_ready, Mutex_lock Radio_mutex, Bt_enable] @ cs"
    using assms(2) by (auto simp: button_pressed_worker_def ble_enable_def ble_enable_body_def
        ble_init_def ble_adv_start_def split: prod.splits)
  ultimately show ?thesis by auto
qed

theorem bluetooth_enabled_with_mark_witness:
  "\<exists>s. app_reach field_env 300001 well_formed (Wait_timer, s) \<and> mark_after 0 (calls s) = 1"
proof -
  obtain s where s: "app_reach field_env 300001 well_formed (Wait_timer, s)"
    using field_reaches_timer [of 300001] by auto
  then have "radio_free s"
    using reach_radio [OF s] by (simp add: radio_inv_def radio_free_def holds_radio_def)
  then obtain s' cs where "app_step field_env 300001 well_formed (Wait_timer, s) (Wait_timer, s')"
      "calls s' = calls s @ [Bt_is_ready, Mutex_lock Radio_mutex, Bt_enable] @ cs"
    using field_button_step [of s field_env well_formed 300001 Wait_timer] by (auto simp: field_env_def)
  from bluetooth_enabled_with_mark [OF s this(1,2), of 0] s show ?thesis by auto
qed



section \<open>Before the first transmission\<close>

text \<open>C26: A packet is sent to the satellite only by the transmission segment of main: with the
  radio mutex held, the mark at satellite, after the SDK was given a time and a key was
  loaded or accepted.\<close>

theorem packets_only_in_satellite_phase:
  assumes "app_reach e fuel P (pc, s)" and "app_step e fuel P (pc, s) (pc', s')"
    and "calls s' = calls s @ cs" and "Packet_send pkt rel \<in> set cs"
  shows "pc = Transmit \<and> lock_depth (calls s) = 1 \<and> mark_after v (calls s) = 0 \<and>
    (\<exists>t. Hubble_time_set t \<in> set (calls s)) \<and> Sem_give Key_sem \<in> set (calls s)"
proof -
  have "pc = Transmit"
    using assms(2)
  proof (cases rule: app_step.cases)
    case main
    then obtain ds where "calls s' = calls s @ ds" "list_all (main_calls pc) ds"
      using main_step_calls by blast
    with assms(3,4) have "main_calls pc (Packet_send pkt rel)" by (auto simp: list_all_iff)
    then show ?thesis by (cases pc) auto
  next
    case (handler h)
    then obtain ds where "calls s' = calls s @ ds" "list_all handler_calls ds"
      using handler_effect [of h s e] by (auto simp: handler_adds_def)
    with assms(3,4) show ?thesis by (auto simp: list_all_iff)
  qed
  moreover from this have "holds_radio pc" "marks_sat pc" "past_init pc" "past_key pc"
    by (auto simp: holds_radio_def marks_sat_def past_init_def past_key_def)
  ultimately show ?thesis
    using reach_radio [OF assms(1)] reach_mark [OF assms(1), of v] reach_time [OF assms(1)]
    by (simp add: radio_inv_def mark_inv_def time_inv_def time_known_def)
qed

theorem packets_only_in_satellite_phase_witness:
  "\<exists>s. app_reach field_env 300001 well_formed (Transmit, s) \<and> lock_depth (calls s) = 1"
proof -
  obtain s s' cs pkt rel where "app_reach field_env 300001 well_formed (Transmit, s)"
      "app_step field_env 300001 well_formed (Transmit, s) (Stop_sat, s')"
      "calls s' = calls s @ cs" "Packet_send pkt rel \<in> set cs"
    using field_transmits [of 300001] by auto
  from packets_only_in_satellite_phase [OF this, of 0] \<open>app_reach _ _ _ (Transmit, s)\<close>
  show ?thesis by blast
qed

section \<open>Memory safety\<close>

text \<open>C15: As long as the companion writes at least two bytes and the operator gives the payload
  command an argument, no reachable configuration has accessed memory outside an object,
  every buffer has its declared size, the pass table is well formed and the
  retransmission period is at most ten seconds.\<close>

theorem memory_safe:
  assumes "config_ok e" and "app_reach e fuel well_formed (pc, s)"
  shows "\<not> fault s \<and> board_ok e s \<and> table_inv s \<and>
    unat (g_retransmission_frequency_s s) \<le> 10 \<and> key_ok e s"
  using reach_app_ok [OF assms] by (simp add: app_ok_def)

theorem memory_safe_witness:
  "\<exists>s. app_reach field_env 300001 well_formed (Unlock_radio, s) \<and> \<not> fault s"
  using field_reaches_unlock [of 300001] memory_safe [OF config_ok_field, of 300001 Unlock_radio] by auto



section \<open>Progress\<close>





section \<open>Switching the network core\<close>

text \<open>Whether the network core runs after some calls.\<close>

fun core_after :: "bool \<Rightarrow> call list \<Rightarrow> bool" where
  "core_after b [] = b"
| "core_after b (c # cs) = core_after (case c of Cpunet_enable on \<Rightarrow> on | _ \<Rightarrow> b) cs"

lemma core_after_append [simp]: "core_after b (cs @ ds) = core_after (core_after b cs) ds"
  by (induction b cs rule: core_after.induct) auto

text \<open>Stopping the satellite stack reports success exactly when the endpoint could be
  deregistered and the instance closed, and stops the network core exactly then: an error
  of either leaves it as it was.\<close>

theorem core_stopped_iff_cleaned_up:
  fixes s :: "'a world_scheme" and b :: bool and e :: env
  defines "s' \<equiv> exec (sat_disable e) s" and "h \<equiv> calls s @ [Ipc_deregister]"
  shows "(result (sat_disable e) s = 0 \<longleftrightarrow> o_ipc_deregister e h = 0 \<and> o_ipc_close e (h @ [Ipc_close]) = 0) \<and>
    core_after b (calls s') = (result (sat_disable e) s \<noteq> 0 \<and> core_after b (calls s))"
  by (simp add: s'_def h_def sat_disable_def)

text \<open>C34: When the satellite stack cannot be started, main skips the transmission and cleans up,
  but the clean-up stops at its first error: with an endpoint that was never registered,
  which cannot be deregistered, the network core stays on, running the satellite stack,
  while the mark goes back to Bluetooth.\<close>

theorem failed_start_leaves_core_on:
  fixes s :: ble_state
  assumes "run_state (sat_endpoint_open e) s = (Some err, s1)"
    and "o_ipc_deregister e (calls s1 @ [Ipc_deregister]) \<noteq> 0"
  shows "\<exists>s'. run_events e fuel [Main, Main, Main, Main] (Start_sat, s) = Some (Schedule, s') \<and>
    core_after b (calls s') \<and> mark_after v (calls s') = 1"
proof -
  have "core_after b (calls s1)"
    using assms(1) by (auto simp: sat_endpoint_open_def cpunet_stack_mark_def split: if_splits)
  with assms show ?thesis
    by (simp add: sat_disable_def cpunet_stack_mark_def)
qed

definition refusing_env :: env where
  "refusing_env = sample_env\<lparr>o_ipc_register := \<lambda>_. - 12, o_ipc_deregister := \<lambda>_. - 2\<rparr>"

theorem failed_start_leaves_core_on_witness:
  "\<exists>s'. run_events refusing_env 0 [Main, Main, Main, Main] (Start_sat, sample_state) =
     Some (Schedule, s') \<and> core_after False (calls s')"
proof -
  have "run_state (sat_endpoint_open refusing_env) sample_state =
      (Some (- 12), sample_state\<lparr>calls := [Mark_write 0, Cpunet_enable True, Ipc_open, Ipc_register]\<rparr>)"
    by (simp add: sat_endpoint_open_def cpunet_stack_mark_def refusing_env_def sample_env_def)
  from failed_start_leaves_core_on [OF this, of 0 False 1] show ?thesis
    by (auto simp: refusing_env_def)
qed

section \<open>Without a pass\<close>





end
