(* ===== verification/Ble_Properties.thy ===== *)
theory Ble_Properties
  imports Sample Button
begin

text \<open>
  The properties of \<^verbatim>\<open>app/src/ble.c\<close>, \<^verbatim>\<open>app/src/button.c\<close> and of the key in
  \<^verbatim>\<open>app/src/main.c\<close> and \<^verbatim>\<open>app/src/nvs.c\<close>.
\<close>

section \<open>The write characteristic\<close>

fun write_batches :: "env \<Rightarrow> u8 \<Rightarrow> sat_pass list list \<Rightarrow> ('a ble_state_scheme, int list) state" where
  "write_batches e flags [] = ret []"
| "write_batches e flags (ps # pss) = do {
     n \<leftarrow> chr_write_cb e (encode_ephemeris ps) flags;
     ns \<leftarrow> write_batches e flags pss;
     ret (n # ns)
   }"

lemma write_batches_eq:
  fixes s :: "'a ble_state_scheme"
  assumes "flags AND WRITE_FLAG_PREPARE e = 0" and "\<not> cfg_pass_prediction e"
  shows "\<forall>ps \<in> set pss. length ps < 2 ^ 32 \<Longrightarrow>
    run_state (write_batches e flags pss) s =
      (map (\<lambda>ps. int (6 + 6 * length ps)) pss, exec (add_batches (sat_pass_add e) pss) s)"
proof (induction pss arbitrary: s)
  case Nil
  then show ?case by simp
next
  case (Cons ps pss)
  then have "length ps < 2 ^ 32" by simp
  note w = chr_write_ephemeris [OF assms this, of s]
  from Cons w show ?case by (simp split: prod.splits)
qed

text \<open>C13: The companion's ephemeris writes arrive: after a sequence of write requests, each an
  encoded batch of passes, the pending queue has grown by exactly the passes of all the
  batches in order, up to the free entries of the table, and every request is reported as
  written in full.\<close>

theorem ephemeris_roundtrip:
  fixes s :: "'a ble_state_scheme"
  assumes "queue_ok e s" and "flags AND WRITE_FLAG_PREPARE e = 0"
    and "\<forall>ps \<in> set pss. length ps < 2 ^ 32"
  shows "result (write_batches e flags pss) s =
      map (\<lambda>ps. int (length (encode_ephemeris ps))) pss \<and>
    pending (exec (write_batches e flags pss) s) =
      pending s @ take (300 - unat (g_sat_passes_count s)) (concat pss)"
proof -
  have np: "\<not> cfg_pass_prediction e" using assms(1) by (simp add: queue_ok_def)
  have len: "length (encode_ephemeris ps) = 6 + 6 * length ps" for ps
    by (simp add: encode_ephemeris_def)
  show ?thesis
    using write_batches_eq [OF assms(2) np assms(3), of s] pass_table.add_batches_queue [OF assms(1), of pss]
    by (simp add: len queue_room_def HUBBLE_NUMBER_OF_TIMESTAMPS_def)
qed

theorem ephemeris_roundtrip_witness:
  "pending (exec (write_batches sample_env 0 [[pass_at 4000 10], [pass_at 5000 20]]) sample_state) =
     [pass_at 900 60, pass_at 2000 60, pass_at 3000 90, pass_at 4000 10, pass_at 5000 20]"
  using ephemeris_roundtrip [OF queue_ok_sample, of 0 "[[pass_at 4000 10], [pass_at 5000 20]]"]
  by (simp add: pending_sample) (simp add: sample_state_def)

text \<open>The companion's other two writes arrive as well: the time goes to the SDK as it was
  sent, and is kept as the time at which the device started; the location is stored in
  the build that predicts passes and ignored in the other; both are reported as written
  in full.\<close>

theorem utc_and_location_roundtrip:
  fixes s :: "'a ble_state_scheme"
  assumes "flags AND WRITE_FLAG_PREPARE e = 0"
  shows "(let h = calls s @ [Hubble_time_set t, Uptime_get] in
      run_state (chr_write_cb e (encode_utc t) flags) s =
        (int (length (encode_utc t)), s\<lparr>calls := h, g_utc_time := t - word_of_int (o_uptime e h)\<rparr>)) \<and>
    run_state (chr_write_cb e (encode_location la lo) flags) s =
      (int (length (encode_location la lo)),
       if cfg_pass_prediction e then s\<lparr>g_device_pos := \<lparr>lat = la, lon = lo\<rparr>\<rparr> else s)"
proof -
  have "length (encode_utc t) = 10" "length (encode_location la lo) = 18"
    by (simp_all add: encode_utc_def encode_location_def)
  then show ?thesis
    using chr_write_utc [OF assms, of t s] chr_write_location [OF assms, of la lo s]
    by (simp add: Let_def)
qed

theorem utc_and_location_roundtrip_witness:
  "g_device_pos (exec (chr_write_cb predicting_env (encode_location 3 4) 0) sample_state) =
     \<lparr>lat = 3, lon = 4\<rparr>"
  using utc_and_location_roundtrip [of 0 predicting_env sample_state 5 3 4] by (simp add: Let_def)

text \<open>A write is read past its end exactly when it is executed and has no byte, or has the
  packet type as its only byte; every other write, of whatever length and content, is
  handled within its bytes.\<close>

theorem write_reads_in_bounds_iff:
  fixes s :: "'a ble_state_scheme"
  assumes "app_ok e s"
  shows "fault (exec (chr_write_cb e req flags) s) \<longleftrightarrow>
    flags AND WRITE_FLAG_PREPARE e = 0 \<and> (req = [] \<or> req = [SPBLE_PKT_CMD])"
proof -
  consider (prep) "flags AND WRITE_FLAG_PREPARE e \<noteq> 0"
    | (short) "flags AND WRITE_FLAG_PREPARE e = 0" "req = [] \<or> req = [SPBLE_PKT_CMD]"
    | (other) b where "req = [b]" "b \<noteq> SPBLE_PKT_CMD" "flags AND WRITE_FLAG_PREPARE e = 0"
    | (long) "2 \<le> length req"
    by (cases req; cases "tl req") auto
  then show ?thesis
  proof cases
    case prep
    with assms show ?thesis by (simp add: chr_write_prepare app_ok_def)
  next
    case short
    with chr_write_short [OF short] show ?thesis by simp
  next
    case other
    with assms show ?thesis by (simp add: chr_write_cb_def read_byte_def app_ok_def)
  next
    case long
    then have "app_ok e (exec (chr_write_cb e req flags) s)"
      using keepsD [OF keeps_chr_write assms] by blast
    with long show ?thesis by (auto simp: app_ok_def)
  qed
qed

theorem write_reads_in_bounds_iff_witness:
  "fault (exec (chr_write_cb sample_env [2] 0) sample_state) \<and>
   \<not> fault (exec (chr_write_cb sample_env [2, 9, 1] 0) sample_state)"
  using write_reads_in_bounds_iff [OF app_ok_sample, of "[2]" 0]
    write_reads_in_bounds_iff [OF app_ok_sample, of "[2, 9, 1]" 0]
  by (simp add: SPBLE_PKT_CMD_def)

section \<open>Bluetooth on and off\<close>

definition beacon_ad :: "env \<Rightarrow> 'a ble_state_scheme \<Rightarrow> bytes \<Rightarrow> bt_data list" where
  "beacon_ad e s out = (g_app_ad s)
     [0 := \<lparr>ad_kind = DATA_UUID16_ALL, ad_len = 2, ad_bytes = le_bytes 2 (HUBBLE_BLE_UUID e)\<rparr>,
      1 := \<lparr>ad_kind = DATA_SVC_DATA16, ad_len = length out, ad_bytes = out\<rparr>]"

definition enable_calls :: "env \<Rightarrow> 'a ble_state_scheme \<Rightarrow> call list \<Rightarrow> call list" where
  "enable_calls e s h = (
     let r = o_bt_enable e (h @ [Bt_enable]) in
     if r \<noteq> 0 \<and> r \<noteq> - EALREADY e then [Bt_enable]
     else if g_utc_time s = 0
     then [Bt_enable, Adv_start [USE_NRPA, OPT_CONN] FAST_INT_MIN_2 FAST_INT_MAX_2
             (take 2 (g_app_ad s)) (ble_sd e)]
     else let cs = [Bt_enable, Timer_start Ble_timer (cfg_adv_frequency e) 0, Ble_advertise_get 31];
              (err, out) = o_advertise_get e (h @ cs) in
          if err \<noteq> 0 then cs
          else cs @ [Adv_start [USE_NRPA] SLOW_INT_MIN SLOW_INT_MAX (beacon_ad e s out) []])"

lemma ble_enable_calls:
  fixes s :: "'a ble_state_scheme"
  shows "calls (exec (ble_enable e u) s) = calls s @ Mutex_lock Radio_mutex #
      (if \<not> u \<and> g_ble_off_by_user s then []
       else enable_calls e s (calls s @ [Mutex_lock Radio_mutex])) @ [Mutex_unlock Radio_mutex]"
  by (simp add: ble_enable_def ble_enable_body_def ble_init_def
      ble_adv_start_def enable_calls_def beacon_ad_def HUBBLE_BLE_BUFFER_LEN_def Let_def
      split: prod.splits)

lemma ble_flag:
  fixes s :: "'a ble_state_scheme"
  shows "g_ble_off_by_user (exec (ble_enable e u) s) = (\<not> u \<and> g_ble_off_by_user s)"
    and "g_ble_off_by_user (exec (ble_disable u) s) = (u \<or> g_ble_off_by_user s)"
  by (simp_all add: ble_enable_def ble_enable_body_def ble_disable_def ble_adv_stop_def ble_init_def
      ble_adv_start_def split: prod.splits)

text \<open>Enabling Bluetooth advertises what the state asks for: without a time it advertises
  the connectable provisioning packet; with a time it arms the refresh timer, asks the SDK
  for a beacon, and advertises the beacon without accepting connections if there is one.
  When the controller does not start, or the user has switched Bluetooth off and it is
  main that enables it, nothing is advertised. The user's choice changes only by the
  user.\<close>

theorem enable_advertises:
  fixes s :: "'a ble_state_scheme"
  shows "calls (exec (ble_enable e u) s) = calls s @ Mutex_lock Radio_mutex #
      (if \<not> u \<and> g_ble_off_by_user s then []
       else enable_calls e s (calls s @ [Mutex_lock Radio_mutex])) @ [Mutex_unlock Radio_mutex] \<and>
    g_ble_off_by_user (exec (ble_enable e u) s) = (\<not> u \<and> g_ble_off_by_user s) \<and>
    g_ble_off_by_user (exec (ble_disable u) s) = (u \<or> g_ble_off_by_user s)"
  using ble_enable_calls ble_flag by blast

text \<open>A press of the button toggles Bluetooth: when the stack is ready it is switched off,
  otherwise it is switched on, in either case as the user's choice and inside one radio
  section.\<close>

theorem button_press_toggles:
  fixes s :: "'a ble_state_scheme" and e :: env
  defines "ready \<equiv> o_bt_is_ready e (calls s @ [Bt_is_ready])"
  shows "g_ble_off_by_user (exec (button_pressed_worker e) s) = ready \<and>
    (\<exists>cs. calls (exec (button_pressed_worker e) s) =
       calls s @ [Bt_is_ready, Mutex_lock Radio_mutex] @ cs @ [Mutex_unlock Radio_mutex] \<and>
       (if ready then Bt_disable \<in> set cs \<and> Bt_enable \<notin> set cs
        else Bt_enable \<in> set cs \<and> Bt_disable \<notin> set cs))"
proof -
  let ?s = "s\<lparr>calls := calls s @ [Bt_is_ready]\<rparr>"
  have on: "Bt_enable \<in> set (enable_calls e ?s h) \<and> Bt_disable \<notin> set (enable_calls e ?s h)" for h
    by (cases "o_advertise_get e (h @ [Bt_enable, Timer_start Ble_timer (cfg_adv_frequency e) 0,
        Ble_advertise_get 31])") (simp add: enable_calls_def Let_def)
  show ?thesis
  proof (cases ready)
    case True
    then show ?thesis
      using button_toggles [of e s]
      by (intro conjI exI [of _ "[Adv_stop, Timer_stop Ble_timer, Bt_disable]"])
        (simp_all add: ready_def button_pressed_worker_def ble_disable_def ble_adv_stop_def)
  next
    case False
    let ?cs = "enable_calls e ?s (calls ?s @ [Mutex_lock Radio_mutex])"
    have "calls (exec (button_pressed_worker e) s) =
        calls s @ [Bt_is_ready, Mutex_lock Radio_mutex] @ ?cs @ [Mutex_unlock Radio_mutex]"
      using False ble_enable_calls [of e True ?s] by (simp add: ready_def button_pressed_worker_def)
    with False on button_toggles [of e s] show ?thesis
      by (intro conjI exI [of _ ?cs]) (simp_all add: ready_def)
  qed
qed

section \<open>The key\<close>

text \<open>Setting the key answers every input: a text of the wrong length changes nothing and is
  refused with -EINVAL; a text the decoder rejects is refused with its error and neither
  stored nor announced; an accepted text replaces the key in memory, is written to the
  flash in place of the old entry, and releases the main thread's wait for a key. The
  number of bytes it decoded to is not checked: the rest of the old key stays behind it.\<close>

theorem key_set_all_branches:
  fixes s :: "'a key_state_scheme" and e :: env and key :: string and len :: nat
  defines "h \<equiv> calls s @ [Base64_decode (cfg_key_size e) (take len key)]"
  defines "k \<equiv> blit (g_hubble_key s) 0 (take (cfg_key_size e) (snd (o_base64 e h)))"
  shows "run_state (crypto_key_set e key len) s =
    (if len \<noteq> (cfg_key_size e + 2) div 3 * 4 then (- EINVAL, s)
     else if fst (o_base64 e h) \<noteq> 0
     then (fst (o_base64 e h), s\<lparr>calls := h, g_hubble_key := k\<rparr>)
     else (0, s\<lparr>calls := h @ [Nvs_delete 0, Nvs_write 0 k, Sem_give Key_sem], g_hubble_key := k\<rparr>))"
  by (simp add: crypto_key_set_def key_text_len_def hubble_nvs_write_def h_def k_def
      split: prod.splits)

text \<open>C38: An accepted key survives a reboot: if the flash reported the whole key written, then
  at any later time at which the entry was not written again, loading the key succeeds and
  finds the same bytes, whatever the buffer held before.\<close>

theorem key_survives_reboot:
  fixes s :: "'a key_state_scheme" and t :: "'b key_state_scheme" and key :: string and len :: nat
  assumes "nvs_ok e" and "key_ok e s" and "key_ok e t"
    and "result (crypto_key_set e key len) s = 0" and "len = key_text_len e"
  defines "s' \<equiv> exec (crypto_key_set e key len) s"
  assumes "o_nvs_write e (butlast (calls s')) = int (cfg_key_size e)"
    and "calls t = calls s' @ cs" and "list_all (\<lambda>c. \<not> writes_entry 0 c) cs"
  shows "result (key_get e) t = 0 \<and> g_hubble_key (exec (key_get e) t) = g_hubble_key s'"
proof -
  let ?h = "calls s @ [Base64_decode (cfg_key_size e) (take len key)]"
  obtain out where out: "o_base64 e ?h = (0, out)"
    using assms(4,5) by (auto simp: crypto_key_set_def split: prod.splits if_splits)
  let ?k = "blit (g_hubble_key s) 0 (take (cfg_key_size e) out)"
  have run: "calls s' = ?h @ [Nvs_delete 0, Nvs_write 0 ?k, Sem_give Key_sem]" "g_hubble_key s' = ?k"
    using crypto_key_set_accepted [OF assms(5) out] by (simp_all add: s'_def)
  have len: "length ?k = cfg_key_size e" using assms(2) by (simp add: key_ok_def)
  have w: "o_nvs_write e (?h @ [Nvs_delete 0, Nvs_write 0 ?k]) = int (length ?k)"
    using assms(7) run(1) len by (simp add: butlast_append)
  then have "nvs_last e 0 (rev (calls s')) = Some ?k" by (simp add: run(1))
  then have "nvs_last e 0 (rev (calls t)) = Some ?k"
    using assms(8) nvs_last_frame [of 0 "rev cs" e "rev (calls s')"] assms(9) by simp
  then have "nvs_contents e t HUBBLE_KEY_ID = Some ?k" by (simp add: nvs_contents_def)
  from nvs.load_contents [OF assms(1) this] len
  have "result (hubble_nvs_read e HUBBLE_KEY_ID (cfg_key_size e)) t = (int (cfg_key_size e), ?k)"
    by simp
  moreover have "blit (g_hubble_key t) 0 ?k = ?k"
    using len assms(3) by (simp add: blit_def key_ok_def)
  ultimately show ?thesis
    using len run(2) by (simp add: key_get_def hubble_nvs_read_def)
qed

definition sample_key :: string where
  "sample_key = replicate 44 (CHR ''A'')"

theorem key_survives_reboot_witness:
  "result (key_get sample_env) (exec (crypto_key_set sample_env sample_key 44) sample_state) = 0"
proof -
  let ?s' = "exec (crypto_key_set sample_env sample_key 44) sample_state"
  let ?out = "map of_char (take 32 (take 44 sample_key)) :: bytes"
  define k where "k = blit (g_hubble_key sample_state) 0 (take 32 ?out)"
  have ok: "key_ok sample_env sample_state" using app_ok_sample by (simp add: app_ok_def)
  have ok': "key_ok sample_env ?s'" by (rule keepsD [OF keeps_key_ok_set ok])
  have len: "44 = key_text_len sample_env" by (simp add: key_text_len_def)
  have dec: "o_base64 sample_env (calls sample_state @ [Base64_decode (cfg_key_size sample_env)
      (take 44 sample_key)]) = (0, ?out)"
    by (simp add: base64_reply_def)
  have run: "run_state (crypto_key_set sample_env sample_key 44) sample_state =
      (0, sample_state\<lparr>calls := [Base64_decode 32 (take 44 sample_key), Nvs_delete 0,
         Nvs_write 0 k, Sem_give Key_sem], g_hubble_key := k\<rparr>)"
    using crypto_key_set_accepted [OF len dec] by (simp only: k_def) simp
  have "length k = 32" using ok' by (simp add: run key_ok_def)
  then have wr: "o_nvs_write sample_env (butlast (calls ?s')) = int (cfg_key_size sample_env)"
    by (simp add: run nvs_write_reply_def)
  show ?thesis
    using key_survives_reboot [OF nvs_ok_sample ok ok' _ len wr, of "[]"] by (simp add: run)
qed

end
