(* ===== verification/Shell_Properties.thy ===== *)
theory Shell_Properties
  imports Sample Shell
begin

text \<open>
  The properties of the operator's commands, \<^verbatim>\<open>app/src/shell.c\<close>: what each command
  stores for the transmitter and what it prints.
\<close>

section \<open>Typed numbers\<close>

definition int_text :: "int \<Rightarrow> string" where
  "int_text z = (if z < 0 then CHR ''-'' # numeral_text (nat (- z)) else numeral_text (nat z))"

lemma strtol_minus_numeral:
  assumes "int n \<le> LONG_MAX"
  shows "strtol (CHR ''-'' # numeral_text n) = - int n"
proof -
  have t: "takeWhile isdigit (numeral_text n) = numeral_text n"
    using numeral_text_digits [of n] by (auto simp: list_all_iff takeWhile_eq_all_conv)
  have "\<not> isspace CHR ''-''" by (simp add: isspace_def)
  then show ?thesis
    using assms by (simp add: strtol_def t digits_val_numeral_text LONG_MIN_def LONG_MAX_def)
qed

lemma strtol_int_text: "\<bar>z\<bar> \<le> LONG_MAX \<Longrightarrow> strtol (int_text z) = z"
  by (simp add: int_text_def strtol_numeral_text strtol_minus_numeral)

text \<open>C39: The retransmission command accepts a typed number exactly when it is between 0 and 10
  modulo 256; then the period becomes that residue, set under the shell's mutex. Any other
  number is refused with -EINVAL and a message, and nothing is changed. So every number
  from 0 to 10 sets itself, and 261 or -251 set 5.\<close>

theorem retransmission_range:
  fixes s :: "'a sat_state_scheme"
  assumes "\<bar>z\<bar> \<le> 2 ^ 31 - 1"
  shows "run_state (cmd_retransmission [c, int_text z]) s =
    (if z mod 256 \<le> 10
     then (0, s\<lparr>calls := calls s @ [Mutex_lock Shell_mutex, Mutex_unlock Shell_mutex],
                g_retransmission_frequency_s := of_nat (nat (z mod 256))\<rparr>)
     else (- EINVAL, s\<lparr>calls := calls s @
             [Shell_print ''It requires a value between 0 and 10'' []]\<rparr>))"
proof -
  have st: "strtol (int_text z) = z"
    using assms by (intro strtol_int_text) (simp add: LONG_MAX_def)
  define f where "f = (of_nat (nat (z mod 256)) :: u8)"
  have w: "(word_of_int z :: u8) = f" and u: "uint f = z mod 256"
    by (simp_all add: f_def word_uint_eq_iff uint_word_of_int)
  show ?thesis
    by (simp add: cmd_retransmission_def Let_def st w u not_less sat_retransmission_set_def
        shell_print_def flip: f_def)
qed

theorem retransmission_range_witness:
  "run_state (cmd_retransmission [''retransmission'', ''261'']) sample_state =
     (0, sample_state\<lparr>calls := [Mutex_lock Shell_mutex, Mutex_unlock Shell_mutex],
        g_retransmission_frequency_s := 5\<rparr>)"
proof -
  have "int_text 261 = ''261''"
    by code_simp
  then show ?thesis
    using retransmission_range [of 261 "''retransmission''" sample_state] by simp
qed

section \<open>The payload command\<close>

lemma cmd_payload_custom:
  fixes s :: "'a sat_state_scheme"
  assumes "0 < length txt" "length txt \<le> 12" "12 \<le> length (g_custom_payload_buffer s)"
  shows "run_state (cmd_payload e [c, ''custom'', txt]) s =
    (0, s\<lparr>calls := calls s @ [Mutex_lock Shell_mutex, Mutex_unlock Shell_mutex],
          g_payload_type := CUSTOM,
          g_custom_payload_buffer := blit (g_custom_payload_buffer s) 0 (text_bytes txt),
          g_custom_payload_size := of_nat (length txt)\<rparr>)"
  using assms by (auto simp: cmd_payload_def cmd_payload_set_def sat_payload_set_def Let_def)

text \<open>C37: A custom text is what the packets carry: after the payload command stored a text of 1 to
  12 characters, the next payload built is the tag 0, the bytes of the text and then
  zeros, at the full packet length, and nothing was accessed out of bounds on the way.\<close>

theorem custom_payload_transmitted:
  fixes s :: "'a sat_state_scheme" and c :: string
  assumes "headers_ok e" "cfg_fuel_gauge e" "board_ok e s" "\<not> fault s"
    and "0 < length txt" "length txt \<le> 12"
  defines "s' \<equiv> exec (cmd_payload e [c, ''custom'', txt]) s"
  shows "result (sat_payload_build e) s' =
      (0 # text_bytes txt @ replicate (PAYLOAD_MAX e - 1 - length txt) 0, PAYLOAD_MAX e) \<and>
    \<not> fault (exec (sat_payload_build e) s')"
proof -
  have sz: "13 \<le> PAYLOAD_MAX e" "length (g_custom_payload_buffer s) = PAYLOAD_MAX e"
    using assms(1,3) by (auto simp: headers_ok_def board_ok_def)
  then have s': "g_payload_type s' = CUSTOM" "\<not> fault s'"
    "g_custom_payload_buffer s' = blit (g_custom_payload_buffer s) 0 (text_bytes txt)"
    "unat (g_custom_payload_size s') = length txt"
    using assms(4-6) by (simp_all add: s'_def cmd_payload_custom unat_of_nat)
  have ch: "channel_to_hubble e CUSTOM = 0"
    using assms(1) by (auto simp: headers_ok_def channel_to_hubble_def)
  let ?buf = "(replicate (PAYLOAD_MAX e) 0)[0 := 0] :: bytes"
  have "blit ?buf 1 (text_bytes txt) =
      0 # text_bytes txt @ replicate (PAYLOAD_MAX e - 1 - length txt) 0"
    using sz by (cases "PAYLOAD_MAX e") (auto simp: blit_def)
  then show ?thesis
    using assms(2,5,6) sz
    by (simp add: sat_payload_build_def s' ch Let_def)
qed

theorem custom_payload_transmitted_witness:
  "result (sat_payload_build sample_env)
     (exec (cmd_payload sample_env [''payload'', ''custom'', ''abc'']) sample_state) =
   ([0, 97, 98, 99, 0, 0, 0, 0, 0, 0, 0, 0, 0], 13)"
  using custom_payload_transmitted [OF headers_ok_sample _ board_ok_sample, of "''abc''" "''payload''"]
  by (simp add: text_bytes_def numeral_nat)

text \<open>The payload command always reports success. The payload type changes exactly when a
  single word or a custom text of fewer than 13 characters is given, and an unknown
  word makes it the invalid channel; every other form leaves the transmitter as it was.
  Every refused form is answered by a message, and a command without any argument prints
  an argument it does not have.\<close>

theorem payload_command_branches:
  fixes s :: "'a sat_state_scheme"
  assumes "headers_ok e" and "board_ok e s" and "argv \<noteq> []"
  defines "r \<equiv> run_state (cmd_payload e argv) s"
    and "custom \<equiv> length argv = 3 \<and> take 6 (argv ! 1) = ''custom'' \<and> length (argv ! 2) < 13"
  shows "fst r = 0 \<and>
    g_payload_type (snd r) =
      (if length argv = 2 then sensor_channel_get e (argv ! 1)
       else if custom then CUSTOM else g_payload_type s) \<and>
    (\<not> custom \<longrightarrow> g_custom_payload_buffer (snd r) = g_custom_payload_buffer s) \<and>
    (fault (snd r) \<longleftrightarrow> fault s \<or> length argv = 1) \<and>
    ((\<exists>a. Shell_print ''Invalid payload %s'' [a] = last (calls (snd r))) \<longleftrightarrow>
      \<not> custom \<and> (length argv = 2 \<longrightarrow> sensor_channel_get e (argv ! 1) = CHAN_MAX e))"
proof -
  have cap: "12 \<le> length (g_custom_payload_buffer s)"
    using assms(1,2) by (simp add: headers_ok_def board_ok_def)
  consider (one) "length argv = 1" | (word) w where "length argv = 2" "argv ! 1 = w"
    | (cust) "custom" | (other) "length argv \<noteq> 1" "length argv \<noteq> 2" "\<not> custom"
    by (auto simp: custom_def)
  then show ?thesis
  proof cases
    case cust
    then have "length argv = 3" "take 6 (argv ! 1) = ''custom''" "length (argv ! 2) \<le> 12"
      by (simp_all add: custom_def)
    with cust cap show ?thesis
      by (simp add: r_def cmd_payload_def cmd_payload_set_def sat_payload_set_def Let_def)
  next
    case other
    then have "1 < length argv" using assms(3) by (cases argv) auto
    moreover have "cmd_payload_set e argv = (ret (- EINVAL) :: ('a sat_state_scheme, int) state)"
      using other by (auto simp: cmd_payload_set_def custom_def Let_def)
    ultimately show ?thesis
      using other by (auto simp: r_def cmd_payload_def argv_text_def shell_print_def EINVAL_def)
  qed (simp_all add: r_def custom_def cmd_payload_def cmd_payload_set_def sat_payload_set_def
      Let_def argv_text_def shell_print_def EINVAL_def)
qed

theorem payload_command_branches_witness:
  "fault (exec (cmd_payload sample_env [''payload'']) sample_state) \<and>
   g_payload_type (exec (cmd_payload sample_env [''payload'', ''bananas'']) sample_state) = 60"
  using payload_command_branches [OF headers_ok_sample board_ok_sample, of "[''payload'']"]
    payload_command_branches [OF headers_ok_sample board_ok_sample, of "[''payload'', ''bananas'']"]
  by (simp add: sensor_channel_get_def)

section \<open>Status and time\<close>








text \<open>The time command prints the current second of the SDK's clock as a date: a valid
  calendar date whose conversion back is that second; before synchronization it prints
  that it waits.\<close>

theorem time_prints_now:
  fixes s :: "'a world_scheme" and e :: env
  defines "ms \<equiv> o_time_get e (calls s @ [Hubble_time_get])"
  shows "\<exists>line. run_state (cmd_time e) s = (0, s\<lparr>calls := calls s @ [Hubble_time_get, line]\<rparr>) \<and>
    (if ms = 0 then line = Shell_print ''Waiting for time synchronization'' []
     else \<exists>t. line = Shell_print ''%02d/%02d/%04d %02d:%02d:%02d UTC'' (tm_args t) \<and>
       valid_tm t \<and> timegm t = unat ms div 1000)"
proof -
  have "unat (ms div MSEC_PER_SEC) = unat ms div 1000"
    by (simp add: MSEC_PER_SEC_def unat_div)
  then show ?thesis
    using gmtime_correct [of "unat ms div 1000"]
    by (simp add: cmd_time_def shell_print_def flip: ms_def) metis
qed

end
