(* ===== verification/Net_Platform.thy ===== *)
theory Net_Platform
  imports Sat_Ipc
begin

text \<open>
  What the image of the network core, \<^verbatim>\<open>app/cpunet/src\<close>, relies on and does not
  define: the build switches, the layouts of the HCI packet headers, and the results of
  its calls into the kernel, the network-buffer pools, the Bluetooth controller, the
  satellite radio driver and the inter-core service. As on the application core, every
  call is logged and every result is a function of the calls made so far.
\<close>

section \<open>Network buffers\<close>

text \<open>
  \<^verbatim>\<open>struct net_buf\<close>: the identity of the buffer, which decides who owns it, the type it
  was allocated for, its data, and the room left behind the data.
\<close>

datatype bt_buf_type = BT_BUF_CMD | BT_BUF_ACL_OUT | BT_BUF_ISO_OUT | BT_BUF_EVT

record net_buf =
  nb_id :: nat
  nb_type :: bt_buf_type
  nb_data :: bytes
  nb_tailroom :: nat

section \<open>External calls\<close>

text \<open>An event of the vendor-specific HCI commands that reports a fatal error.\<close>

datatype fatal_event = Vs_assert string nat | Vs_stack_frame nat nat

datatype net_call =
    Bt_buf_get_tx bt_buf_type bytes | Net_buf_unref nat
  | Bt_send net_buf | Bt_enable_raw
  | Hci_service_send bytes | Sat_service_send ipc_msg
  | Spin_delay nat | K_yield | Warn_blocked
  | Irq_lock | Log_panic | Make_event fatal_event
  | Radio_init | Radio_enable | Radio_disable | Radio_packet_send bytes
  | Thread_create | Open_instance | Register_endpoint | Take_bound_sem | Give_bound_sem

type_synonym 'a net_reply = "net_call list \<Rightarrow> 'a"

section \<open>The platform parameter\<close>

record net_env =
  \<comment> \<open>Kconfig\<close>
  cfg_vs_fatal_error :: bool
  \<comment> \<open>constants and header layouts of Zephyr\<close>
  NET_EALREADY :: int
  cmd_hdr_size :: nat
  cmd_param_len :: "bytes \<Rightarrow> nat"
  acl_hdr_size :: nat
  acl_len :: "bytes \<Rightarrow> nat"
  iso_hdr_size :: nat
  iso_len :: "bytes \<Rightarrow> u16"
  bt_iso_hdr_len :: "u16 \<Rightarrow> nat"
  \<comment> \<open>results of external calls\<close>
  o_buf_get :: "(nat \<times> nat) option net_reply"
  o_bt_send :: "int net_reply"
  o_hci_service_send :: "int net_reply"
  o_sat_service_send :: "int net_reply"
  o_make_event :: "net_buf option net_reply"
  o_radio_init :: "int net_reply"
  o_radio_enable :: "int net_reply"
  o_radio_disable :: "int net_reply"
  o_radio_send :: "int net_reply"
  o_open_instance :: "int net_reply"
  o_register_endpoint :: "int net_reply"
  o_stale_frame :: "bytes net_reply"

section \<open>The call log\<close>

record net_world =
  net_calls :: "net_call list"

definition net_ask :: "'r net_reply \<Rightarrow> net_call \<Rightarrow> ('a net_world_scheme, 'r) state" where
  "net_ask f c = State (\<lambda>s. (f (net_calls s @ [c]), s\<lparr>net_calls := net_calls s @ [c]\<rparr>))"

definition net_tell :: "net_call \<Rightarrow> ('a net_world_scheme, unit) state" where
  "net_tell c = State (\<lambda>s. ((), s\<lparr>net_calls := net_calls s @ [c]\<rparr>))"

lemma run_net_ask [simp]:
  "run_state (net_ask f c) s = (f (net_calls s @ [c]), s\<lparr>net_calls := net_calls s @ [c]\<rparr>)"
  by (simp add: net_ask_def)

lemma run_net_tell [simp]:
  "run_state (net_tell c) s = ((), s\<lparr>net_calls := net_calls s @ [c]\<rparr>)"
  by (simp add: net_tell_def)

text \<open>\<^verbatim>\<open>net_buf_add_mem\<close>: append to the data; the caller has checked the room.\<close>

definition net_buf_add_mem :: "net_buf \<Rightarrow> bytes \<Rightarrow> net_buf" where
  "net_buf_add_mem b d = b\<lparr>nb_data := nb_data b @ d, nb_tailroom := nb_tailroom b - length d\<rparr>"

lemma net_buf_add_mem_fields [simp]:
  "nb_id (net_buf_add_mem b d) = nb_id b" "nb_type (net_buf_add_mem b d) = nb_type b"
  "nb_data (net_buf_add_mem b d) = nb_data b @ d"
  by (simp_all add: net_buf_add_mem_def)

section \<open>Reading the log\<close>

text \<open>
  \<open>gather f h cs\<close> lists what the calls \<open>cs\<close>, made after \<open>h\<close>, contribute according to
  \<open>f\<close>, which sees the log before a call, so that it can tell how the call was answered.
\<close>

fun gather :: "(net_call list \<Rightarrow> net_call \<Rightarrow> 'a list) \<Rightarrow> net_call list \<Rightarrow> net_call list \<Rightarrow> 'a list" where
  "gather f h [] = []"
| "gather f h (c # cs) = f h c @ gather f (h @ [c]) cs"

abbreviation gathered :: "(net_call list \<Rightarrow> net_call \<Rightarrow> 'a list) \<Rightarrow> net_call list \<Rightarrow> 'a list" where
  "gathered f h \<equiv> gather f [] h"

lemma gather_append: "gather f h (cs @ ds) = gather f h cs @ gather f (h @ cs) ds"
  by (induction cs arbitrary: h) simp_all

lemma gathered_append: "gathered f (h @ cs) = gathered f h @ gather f h cs"
  by (simp add: gather_append)

lemma gather_empty: "(\<And>h c. c \<in> set cs \<Longrightarrow> f h c = []) \<Longrightarrow> gather f h cs = []"
  by (induction cs arbitrary: h) simp_all

end
