(* ===== verification/Net_Hci.thy ===== *)
theory Net_Hci
  imports Net_Platform "HOL-Library.Multiset"
begin

text \<open>
  The Bluetooth half of the network core, from \<^verbatim>\<open>app/cpunet/src/main.c\<close>: packets that
  arrive from the host become network buffers in \<open>tx_queue\<close>, which a thread hands to the
  controller; buffers from the controller arrive in \<open>rx_queue\<close> and are sent to the host.
\<close>

section \<open>State\<close>

record hci_state = net_world +
  tx_queue :: "net_buf list"
  rx_queue :: "net_buf list"
  ipc_ept_ready :: bool

definition HCI_IPC_CMD :: u8 where "HCI_IPC_CMD = 1"
definition HCI_IPC_ACL :: u8 where "HCI_IPC_ACL = 2"
definition HCI_IPC_SCO :: u8 where "HCI_IPC_SCO = 3"
definition HCI_IPC_EVT :: u8 where "HCI_IPC_EVT = 4"
definition HCI_IPC_ISO :: u8 where "HCI_IPC_ISO = 5"

lemmas hci_ipc_defs =
  HCI_IPC_CMD_def HCI_IPC_ACL_def HCI_IPC_SCO_def HCI_IPC_EVT_def HCI_IPC_ISO_def

section \<open>From the host to the controller\<close>

text \<open>\<^verbatim>\<open>bt_buf_get_tx\<close> with \<^verbatim>\<open>K_NO_WAIT\<close>: a buffer that already holds the header, or none.\<close>

definition bt_buf_get_tx ::
    "net_env \<Rightarrow> bt_buf_type \<Rightarrow> bytes \<Rightarrow> ('a net_world_scheme, net_buf option) state" where
  "bt_buf_get_tx e ty hdr = do {
     r \<leftarrow> net_ask (o_buf_get e) (Bt_buf_get_tx ty hdr);
     ret (map_option (\<lambda>(i, room). \<lparr>nb_id = i, nb_type = ty, nb_data = hdr, nb_tailroom = room\<rparr>) r)
   }"

definition hci_ipc_cmd_recv ::
    "net_env \<Rightarrow> bytes \<Rightarrow> ('a net_world_scheme, net_buf option) state" where
  "hci_ipc_cmd_recv e data =
     (if length data < cmd_hdr_size e then ret None
      else do {
        let hdr = take (cmd_hdr_size e) data;
        r \<leftarrow> bt_buf_get_tx e BT_BUF_CMD hdr;
        (case r of
           None \<Rightarrow> ret None
         | Some buf \<Rightarrow> (let data = drop (cmd_hdr_size e) data in
             if length data \<noteq> cmd_param_len e hdr then do {
               net_tell (Net_buf_unref (nb_id buf)); ret None
             }
             else if length data > nb_tailroom buf then do {
               net_tell (Net_buf_unref (nb_id buf)); ret None
             }
             else ret (Some (net_buf_add_mem buf data))))
      })"

definition hci_ipc_acl_recv ::
    "net_env \<Rightarrow> bytes \<Rightarrow> ('a net_world_scheme, net_buf option) state" where
  "hci_ipc_acl_recv e data =
     (if length data < acl_hdr_size e then ret None
      else do {
        let hdr = take (acl_hdr_size e) data;
        r \<leftarrow> bt_buf_get_tx e BT_BUF_ACL_OUT hdr;
        (case r of
           None \<Rightarrow> ret None
         | Some buf \<Rightarrow> (let data = drop (acl_hdr_size e) data in
             if length data \<noteq> acl_len e hdr then do {
               net_tell (Net_buf_unref (nb_id buf)); ret None
             }
             else if length data > nb_tailroom buf then do {
               net_tell (Net_buf_unref (nb_id buf)); ret None
             }
             else ret (Some (net_buf_add_mem buf data))))
      })"

definition hci_ipc_iso_recv ::
    "net_env \<Rightarrow> bytes \<Rightarrow> ('a net_world_scheme, net_buf option) state" where
  "hci_ipc_iso_recv e data =
     (if length data < iso_hdr_size e then ret None
      else do {
        let hdr = take (iso_hdr_size e) data;
        r \<leftarrow> bt_buf_get_tx e BT_BUF_ISO_OUT hdr;
        (case r of
           None \<Rightarrow> ret None
         | Some buf \<Rightarrow> (let data = drop (iso_hdr_size e) data in
             if length data \<noteq> bt_iso_hdr_len e (iso_len e hdr) then do {
               net_tell (Net_buf_unref (nb_id buf)); ret None
             }
             else if length data > nb_tailroom buf then do {
               net_tell (Net_buf_unref (nb_id buf)); ret None
             }
             else ret (Some (net_buf_add_mem buf data))))
      })"

definition hci_ipc_rx :: "net_env \<Rightarrow> bytes \<Rightarrow> ('a hci_state_scheme, unit) state" where
  "hci_ipc_rx e data =
     (case data of
        [] \<Rightarrow> ret ()
      | pkt_indicator # data \<Rightarrow> do {
          buf \<leftarrow> (if pkt_indicator = HCI_IPC_CMD then hci_ipc_cmd_recv e data
                 else if pkt_indicator = HCI_IPC_ACL then hci_ipc_acl_recv e data
                 else if pkt_indicator = HCI_IPC_ISO then hci_ipc_iso_recv e data
                 else ret None);
          (case buf of
             None \<Rightarrow> ret ()
           | Some b \<Rightarrow> modify (\<lambda>s. s\<lparr>tx_queue := tx_queue s @ [b]\<rparr>))
        })"

definition hci_ept_recv :: "net_env \<Rightarrow> bytes \<Rightarrow> ('a hci_state_scheme, unit) state" where
  "hci_ept_recv e data = hci_ipc_rx e data"

definition hci_ept_bound :: "('a net_world_scheme, unit) state" where
  "hci_ept_bound = net_tell Give_bound_sem"

text \<open>One round of \<^verbatim>\<open>tx_thread\<close>; it waits while the queue is empty.\<close>

definition tx_thread_round :: "net_env \<Rightarrow> ('a hci_state_scheme, unit) state" where
  "tx_thread_round e = do {
     q \<leftarrow> gets tx_queue;
     (case q of
        [] \<Rightarrow> ret ()
      | buf # bufs \<Rightarrow> do {
          modify (\<lambda>s. s\<lparr>tx_queue := bufs\<rparr>);
          err \<leftarrow> net_ask (o_bt_send e) (Bt_send buf);
          (if err \<noteq> 0 then net_tell (Net_buf_unref (nb_id buf)) else ret ());
          net_tell K_yield
        })
   }"

section \<open>From the controller to the host\<close>

text \<open>
  The loop of \<^verbatim>\<open>hci_ipc_send\<close>, with fuel: \<open>None\<close> is a loop that has not ended,
  \<open>Some r\<close> the result of the send that succeeded. The counter is the 8-bit \<^verbatim>\<open>retries\<close>.
\<close>

fun hci_send_loop :: "net_env \<Rightarrow> nat \<Rightarrow> net_buf \<Rightarrow> bool \<Rightarrow> u8 \<Rightarrow>
    ('a net_world_scheme, int option) state" where
  "hci_send_loop e 0 buf is_fatal_err retries = ret None"
| "hci_send_loop e (Suc fuel) buf is_fatal_err retries = do {
     r \<leftarrow> net_ask (o_hci_service_send e) (Hci_service_send (nb_data buf));
     if r < 0 then do {
       let retries = retries + 1;
       retries \<leftarrow> (if retries > 10 then do { net_tell Warn_blocked; ret 0 } else ret retries);
       (if is_fatal_err then ret ()
        else do { net_tell (Spin_delay 500); net_tell K_yield });
       hci_send_loop e fuel buf is_fatal_err retries
     }
     else ret (Some r)
   }"

definition hci_ipc_send ::
    "net_env \<Rightarrow> nat \<Rightarrow> net_buf \<Rightarrow> bool \<Rightarrow> ('a net_world_scheme, bool) state" where
  "hci_ipc_send e fuel buf is_fatal_err = do {
     r \<leftarrow> hci_send_loop e fuel buf is_fatal_err 0;
     (case r of
        None \<Rightarrow> ret False
      | Some _ \<Rightarrow> do { net_tell (Net_buf_unref (nb_id buf)); ret True })
   }"

text \<open>One round of the loop of \<^verbatim>\<open>main\<close> in this mode.\<close>

definition hci_main_round :: "net_env \<Rightarrow> nat \<Rightarrow> ('a hci_state_scheme, bool) state" where
  "hci_main_round e fuel = do {
     q \<leftarrow> gets rx_queue;
     (case q of
        [] \<Rightarrow> ret True
      | buf # bufs \<Rightarrow> do {
          modify (\<lambda>s. s\<lparr>rx_queue := bufs\<rparr>);
          hci_ipc_send e fuel buf False
        })
   }"

section \<open>Fatal errors\<close>

text \<open>
  The two handlers never return; their value is whether they reached the final endless
  loop, which they do unless the send before it does not end.
\<close>

definition bt_ctlr_assert_handle ::
    "net_env \<Rightarrow> nat \<Rightarrow> string \<Rightarrow> nat \<Rightarrow> ('a hci_state_scheme, bool) state" where
  "bt_ctlr_assert_handle e fuel file line = do {
     net_tell Irq_lock;
     sent \<leftarrow> (if cfg_vs_fatal_error e then do {
                ready \<leftarrow> gets ipc_ept_ready;
                if ready then do {
                  buf \<leftarrow> net_ask (o_make_event e) (Make_event (Vs_assert file line));
                  (case buf of
                     Some b \<Rightarrow> hci_ipc_send e fuel b True
                   | None \<Rightarrow> ret True)
                } else ret True
              } else ret True);
     if sent then do { net_tell Log_panic; ret True } else ret False
   }"

definition k_sys_fatal_error_handler ::
    "net_env \<Rightarrow> nat \<Rightarrow> nat \<Rightarrow> nat option \<Rightarrow> ('a hci_state_scheme, bool) state" where
  "k_sys_fatal_error_handler e fuel reason esf = do {
     net_tell Irq_lock;
     ready \<leftarrow> gets ipc_ept_ready;
     sent \<leftarrow> (case esf of
        None \<Rightarrow> ret True
      | Some frame \<Rightarrow>
          if ready then do {
            buf \<leftarrow> net_ask (o_make_event e) (Make_event (Vs_stack_frame reason frame));
            (case buf of
               Some b \<Rightarrow> hci_ipc_send e fuel b True
             | None \<Rightarrow> ret True)
          } else ret True);
     if sent then do { net_tell Log_panic; ret True } else ret False
   }"

section \<open>Receiving a packet\<close>

text \<open>
  The three receivers are one routine over the buffer type and the header's layout.
\<close>

definition recv_with :: "net_env \<Rightarrow> bt_buf_type \<Rightarrow> nat \<Rightarrow> (bytes \<Rightarrow> nat) \<Rightarrow> bytes \<Rightarrow>
    ('a net_world_scheme, net_buf option) state" where
  "recv_with e ty sz len data = State (\<lambda>s.
     let hdr = take sz data; h = net_calls s @ [Bt_buf_get_tx ty hdr] in
     if length data < sz then (None, s)
     else case o_buf_get e h of
        None \<Rightarrow> (None, s\<lparr>net_calls := h\<rparr>)
      | Some (i, room) \<Rightarrow>
          if length data = sz + len hdr \<and> length data - sz \<le> room
          then (Some \<lparr>nb_id = i, nb_type = ty, nb_data = data,
                      nb_tailroom = room - (length data - sz)\<rparr>, s\<lparr>net_calls := h\<rparr>)
          else (None, s\<lparr>net_calls := h @ [Net_buf_unref i]\<rparr>))"

lemma state_eqI: "(\<And>s. run_state m s = run_state n s) \<Longrightarrow> m = n"
  by (cases m; cases n) auto

lemma recv_eqs:
  "hci_ipc_cmd_recv e = recv_with e BT_BUF_CMD (cmd_hdr_size e) (cmd_param_len e)"
  "hci_ipc_acl_recv e = recv_with e BT_BUF_ACL_OUT (acl_hdr_size e) (acl_len e)"
  "hci_ipc_iso_recv e = recv_with e BT_BUF_ISO_OUT (iso_hdr_size e) (bt_iso_hdr_len e \<circ> iso_len e)"
  by (rule ext state_eqI, rule ext state_eqI,
      auto simp: hci_ipc_cmd_recv_def hci_ipc_acl_recv_def hci_ipc_iso_recv_def recv_with_def
        bt_buf_get_tx_def Let_def net_buf_add_mem_def split: option.splits)+

text \<open>
  The specification of a packet from the host: its indicator is that of a command, ACL or
  ISO packet, and the length in its header is that of the rest.
\<close>

definition complete_packet :: "nat \<Rightarrow> (bytes \<Rightarrow> nat) \<Rightarrow> bytes \<Rightarrow> bool" where
  "complete_packet sz len pkt \<longleftrightarrow> sz \<le> length pkt \<and> length pkt = sz + len (take sz pkt)"

definition host_packet :: "net_env \<Rightarrow> bytes \<Rightarrow> (bt_buf_type \<times> nat \<times> bytes) option" where
  "host_packet e data = (case data of
     [] \<Rightarrow> None
   | k # pkt \<Rightarrow>
       if k = HCI_IPC_CMD \<and> complete_packet (cmd_hdr_size e) (cmd_param_len e) pkt
       then Some (BT_BUF_CMD, cmd_hdr_size e, pkt)
       else if k = HCI_IPC_ACL \<and> complete_packet (acl_hdr_size e) (acl_len e) pkt
       then Some (BT_BUF_ACL_OUT, acl_hdr_size e, pkt)
       else if k = HCI_IPC_ISO \<and> complete_packet (iso_hdr_size e) (bt_iso_hdr_len e \<circ> iso_len e) pkt
       then Some (BT_BUF_ISO_OUT, iso_hdr_size e, pkt)
       else None)"

text \<open>The buffer a packet gets, when there is one with room for it.\<close>

definition packet_buffer ::
    "net_env \<Rightarrow> net_call list \<Rightarrow> bt_buf_type \<times> nat \<times> bytes \<Rightarrow> net_buf list" where
  "packet_buffer e h p = (case p of (ty, sz, pkt) \<Rightarrow>
     case o_buf_get e (h @ [Bt_buf_get_tx ty (take sz pkt)]) of
       None \<Rightarrow> []
     | Some (i, room) \<Rightarrow>
         if length pkt - sz \<le> room
         then [\<lparr>nb_id = i, nb_type = ty, nb_data = pkt, nb_tailroom = room - (length pkt - sz)\<rparr>]
         else [])"

section \<open>Buffers and packets in the log\<close>

text \<open>
  The identities of the buffers the image got and gave back, the buffers it handed to the
  controller, and the data the host accepted.
\<close>

definition acquired :: "net_env \<Rightarrow> net_call list \<Rightarrow> net_call \<Rightarrow> nat list" where
  "acquired e h c = (case c of
     Bt_buf_get_tx ty hdr \<Rightarrow> (case o_buf_get e (h @ [c]) of Some (i, room) \<Rightarrow> [i] | None \<Rightarrow> [])
   | Make_event ev \<Rightarrow> (case o_make_event e (h @ [c]) of Some b \<Rightarrow> [nb_id b] | None \<Rightarrow> [])
   | _ \<Rightarrow> [])"

definition released :: "net_env \<Rightarrow> net_call list \<Rightarrow> net_call \<Rightarrow> nat list" where
  "released e h c = (case c of
     Net_buf_unref i \<Rightarrow> [i]
   | Bt_send b \<Rightarrow> if o_bt_send e (h @ [c]) = 0 then [nb_id b] else []
   | _ \<Rightarrow> [])"

definition to_controller :: "net_call list \<Rightarrow> net_call \<Rightarrow> (bt_buf_type \<times> bytes) list" where
  "to_controller h c = (case c of Bt_send b \<Rightarrow> [(nb_type b, nb_data b)] | _ \<Rightarrow> [])"

definition to_host :: "net_env \<Rightarrow> net_call list \<Rightarrow> net_call \<Rightarrow> bytes list" where
  "to_host e h c = (case c of
     Hci_service_send d \<Rightarrow> if o_hci_service_send e (h @ [c]) < 0 then [] else [d] | _ \<Rightarrow> [])"

lemma hci_ipc_rx_cases:
  fixes s :: "'a hci_state_scheme"
  shows "hci_ipc_rx e [] = (ret () :: ('a hci_state_scheme, unit) state)"
    and "hci_ipc_rx e (k # pkt) = (State_Monad.bind
      (if k = HCI_IPC_CMD then recv_with e BT_BUF_CMD (cmd_hdr_size e) (cmd_param_len e) pkt
       else if k = HCI_IPC_ACL then recv_with e BT_BUF_ACL_OUT (acl_hdr_size e) (acl_len e) pkt
       else if k = HCI_IPC_ISO
       then recv_with e BT_BUF_ISO_OUT (iso_hdr_size e) (bt_iso_hdr_len e \<circ> iso_len e) pkt
       else ret None)
      (\<lambda>buf. case buf of None \<Rightarrow> ret ()
         | Some b \<Rightarrow> modify (\<lambda>s. s\<lparr>tx_queue := tx_queue s @ [b]\<rparr>)) :: ('a hci_state_scheme, unit) state)"
  by (simp_all add: hci_ipc_rx_def recv_eqs)

text \<open>
  What receiving a packet does: the queue grows by the buffers \<open>bs\<close>, none or one, and
  every buffer that was got and is not among them was given back.
\<close>

definition recv_effect :: "net_env \<Rightarrow> net_call list \<Rightarrow> net_call list \<Rightarrow> net_buf list \<Rightarrow> bool" where
  "recv_effect e h cs bs \<longleftrightarrow>
     gather (acquired e) h cs = map nb_id bs @ gather (released e) h cs \<and>
     gather to_controller h cs = [] \<and> gather (to_host e) h cs = []"

lemma recv_effect_simps:
  "recv_effect e h [] []"
  "o_buf_get e (h @ [Bt_buf_get_tx ty d]) = None \<Longrightarrow> recv_effect e h [Bt_buf_get_tx ty d] []"
  "o_buf_get e (h @ [Bt_buf_get_tx ty d]) = Some (i, room) \<Longrightarrow> nb_id b = i \<Longrightarrow>
     recv_effect e h [Bt_buf_get_tx ty d] [b]"
  "o_buf_get e (h @ [Bt_buf_get_tx ty d]) = Some (i, room) \<Longrightarrow>
     recv_effect e h [Bt_buf_get_tx ty d, Net_buf_unref i] []"
  by (simp_all add: recv_effect_def acquired_def released_def to_controller_def to_host_def)

lemma recv_with_run:
  "\<exists>cs bs. run_state (recv_with e ty sz len pkt) s =
      (if bs = [] then None else Some (hd bs), s\<lparr>net_calls := net_calls s @ cs\<rparr>) \<and>
    recv_effect e (net_calls s) cs bs \<and> length bs \<le> 1 \<and>
    bs = (if complete_packet sz len pkt
          then packet_buffer e (net_calls s) (ty, sz, pkt) else [])"
proof (cases "length pkt < sz")
  case True
  then show ?thesis
    by (intro exI [of _ "[]"]) (simp add: recv_with_def recv_effect_simps complete_packet_def)
next
  case False
  let ?c = "Bt_buf_get_tx ty (take sz pkt)"
  show ?thesis
  proof (cases "o_buf_get e (net_calls s @ [?c])")
    case None
    with False show ?thesis
      by (intro exI [of _ "[?c]"] exI [of _ "[]"])
        (simp add: recv_with_def recv_effect_simps complete_packet_def packet_buffer_def)
  next
    case (Some p)
    then obtain i room where p: "o_buf_get e (net_calls s @ [?c]) = Some (i, room)"
      by (cases p) auto
    let ?b = "\<lparr>nb_id = i, nb_type = ty, nb_data = pkt, nb_tailroom = room - (length pkt - sz)\<rparr>"
    show ?thesis
    proof (cases "length pkt = sz + len (take sz pkt) \<and> length pkt - sz \<le> room")
      case True
      with p False show ?thesis
        by (intro exI [of _ "[?c]"] exI [of _ "[?b]"])
          (auto simp: recv_with_def recv_effect_simps complete_packet_def packet_buffer_def Let_def)
    next
      case bad: False
      with p False show ?thesis
        by (intro exI [of _ "[?c, Net_buf_unref i]"] exI [of _ "[]"])
          (auto simp add: recv_with_def recv_effect_simps complete_packet_def packet_buffer_def Let_def)
    qed
  qed
qed

lemma recv_with_queued:
  fixes s :: "'a hci_state_scheme"
  shows "\<exists>cs bs. run_state (State_Monad.bind (recv_with e ty sz len pkt)
      (\<lambda>buf. case buf of None \<Rightarrow> ret ()
         | Some b \<Rightarrow> modify (\<lambda>s. s\<lparr>tx_queue := tx_queue s @ [b]\<rparr>))) s =
      ((), s\<lparr>net_calls := net_calls s @ cs, tx_queue := tx_queue s @ bs\<rparr>) \<and>
    recv_effect e (net_calls s) cs bs \<and>
    bs = (if complete_packet sz len pkt
          then packet_buffer e (net_calls s) (ty, sz, pkt) else [])"
proof -
  obtain cs bs where r: "run_state (recv_with e ty sz len pkt) s =
      (if bs = [] then None else Some (hd bs), s\<lparr>net_calls := net_calls s @ cs\<rparr>)"
    "recv_effect e (net_calls s) cs bs" "length bs \<le> 1"
    "bs = (if complete_packet sz len pkt
        then packet_buffer e (net_calls s) (ty, sz, pkt) else [])"
    using recv_with_run [of e ty sz len pkt s] by blast
  let ?k = "\<lambda>buf. case buf of None \<Rightarrow> ret ()
     | Some b \<Rightarrow> modify (\<lambda>s :: 'a hci_state_scheme. s\<lparr>tx_queue := tx_queue s @ [b]\<rparr>)"
  from r(3) have "run_state (?k (if bs = [] then None else Some (hd bs))) (s\<lparr>net_calls := cs'\<rparr>) =
      ((), s\<lparr>net_calls := cs', tx_queue := tx_queue s @ bs\<rparr>)" for cs'
    by (cases bs) auto
  with r(1) have "run_state (State_Monad.bind (recv_with e ty sz len pkt) ?k) s =
      ((), s\<lparr>net_calls := net_calls s @ cs, tx_queue := tx_queue s @ bs\<rparr>)"
    by (simp only: run_state_bind prod.case)
  with r(2,4) show ?thesis by blast
qed

lemma hci_ipc_rx_run:
  fixes s :: "'a hci_state_scheme"
  shows "\<exists>cs bs. run_state (hci_ipc_rx e data) s =
      ((), s\<lparr>net_calls := net_calls s @ cs, tx_queue := tx_queue s @ bs\<rparr>) \<and>
    recv_effect e (net_calls s) cs bs \<and>
    bs = (case host_packet e data of None \<Rightarrow> [] | Some p \<Rightarrow> packet_buffer e (net_calls s) p)"
proof -
  have none: "\<exists>cs. run_state (ret ()) s = ((), s\<lparr>net_calls := net_calls s @ cs, tx_queue := tx_queue s\<rparr>) \<and>
      recv_effect e (net_calls s) cs []"
    by (intro exI [of _ "[]"]) (simp add: recv_effect_simps)
  show ?thesis
  proof (cases data)
    case Nil
    then show ?thesis using none by (simp add: hci_ipc_rx_cases host_packet_def)
  next
    case (Cons k pkt)
    consider (cmd) "k = HCI_IPC_CMD" | (acl) "k = HCI_IPC_ACL" | (iso) "k = HCI_IPC_ISO"
      | (unknown) "k \<noteq> HCI_IPC_CMD" "k \<noteq> HCI_IPC_ACL" "k \<noteq> HCI_IPC_ISO" by blast
    then show ?thesis
    proof cases
      case cmd
      then show ?thesis
        using recv_with_queued [of e BT_BUF_CMD "cmd_hdr_size e" "cmd_param_len e" pkt s]
        by (cases "complete_packet (cmd_hdr_size e) (cmd_param_len e) pkt")
          (simp_all add: Cons hci_ipc_rx_cases host_packet_def hci_ipc_defs)
    next
      case acl
      then show ?thesis
        using recv_with_queued [of e BT_BUF_ACL_OUT "acl_hdr_size e" "acl_len e" pkt s]
        by (cases "complete_packet (acl_hdr_size e) (acl_len e) pkt")
          (simp_all add: Cons hci_ipc_rx_cases host_packet_def hci_ipc_defs)
    next
      case iso
      then show ?thesis
        using recv_with_queued [of e BT_BUF_ISO_OUT "iso_hdr_size e" "bt_iso_hdr_len e \<circ> iso_len e" pkt s]
        by (cases "complete_packet (iso_hdr_size e) (bt_iso_hdr_len e \<circ> iso_len e) pkt")
          (simp_all add: Cons hci_ipc_rx_cases host_packet_def hci_ipc_defs)
    next
      case unknown
      then show ?thesis using none by (simp add: Cons hci_ipc_rx_cases host_packet_def)
    qed
  qed
qed

section \<open>Sending a buffer\<close>

definition attempts :: "net_call list \<Rightarrow> nat" where
  "attempts cs = length (filter (\<lambda>c. \<exists>d. c = Hci_service_send d) cs)"

definition warnings :: "net_call list \<Rightarrow> nat" where
  "warnings cs = length (filter (\<lambda>c. c = Warn_blocked) cs)"

lemma attempts_simps [simp]:
  "attempts [] = 0" "attempts (cs @ ds) = attempts cs + attempts ds"
  "attempts (Hci_service_send d # cs) = Suc (attempts cs)"
  "attempts (Warn_blocked # cs) = attempts cs" "attempts (Spin_delay n # cs) = attempts cs"
  "attempts (K_yield # cs) = attempts cs" "attempts (Net_buf_unref i # cs) = attempts cs"
  by (simp_all add: attempts_def)

lemma warnings_simps [simp]:
  "warnings [] = 0" "warnings (cs @ ds) = warnings cs + warnings ds"
  "warnings (Hci_service_send d # cs) = warnings cs"
  "warnings (Warn_blocked # cs) = Suc (warnings cs)" "warnings (Spin_delay n # cs) = warnings cs"
  "warnings (K_yield # cs) = warnings cs" "warnings (Net_buf_unref i # cs) = warnings cs"
  by (simp_all add: warnings_def)

text \<open>The calls of the loop; the fatal-error handlers may not yield.\<close>

fun is_send_call :: "bool \<Rightarrow> net_call \<Rightarrow> bool" where
  "is_send_call fatal (Hci_service_send d) = True"
| "is_send_call fatal Warn_blocked = True"
| "is_send_call fatal (Spin_delay n) = (\<not> fatal)"
| "is_send_call fatal K_yield = (\<not> fatal)"
| "is_send_call fatal c = False"

text \<open>The calls of one refused attempt, and the counter after it.\<close>

definition blocked_round :: "bytes \<Rightarrow> bool \<Rightarrow> u8 \<Rightarrow> net_call list" where
  "blocked_round d fatal k = Hci_service_send d # (if k + 1 > 10 then [Warn_blocked] else []) @
     (if fatal then [] else [Spin_delay 500, K_yield])"

definition next_retry :: "u8 \<Rightarrow> u8" where
  "next_retry k = (if k + 1 > 10 then 0 else k + 1)"

lemma hci_send_loop_Suc:
  "run_state (hci_send_loop e (Suc fuel) buf fatal k) s =
     (let h = net_calls s @ [Hci_service_send (nb_data buf)] in
      if o_hci_service_send e h < 0
      then run_state (hci_send_loop e fuel buf fatal (next_retry k))
             (s\<lparr>net_calls := net_calls s @ blocked_round (nb_data buf) fatal k\<rparr>)
      else (Some (o_hci_service_send e h), s\<lparr>net_calls := h\<rparr>))"
  by (simp add: blocked_round_def next_retry_def Let_def)

lemma blocked_round_counts:
  assumes "unat k \<le> 10"
  shows "unat (next_retry k) \<le> 10" and "attempts (blocked_round d fatal k) = 1"
    and "warnings (blocked_round d fatal k) * 11 + unat (next_retry k) = Suc (unat k)"
    and "list_all (is_send_call fatal) (blocked_round d fatal k)"
    and "gather (acquired e) h (blocked_round d fatal k) = []"
    and "gather (released e) h (blocked_round d fatal k) = []"
    and "gather to_controller h (blocked_round d fatal k) = []"
    and "o_hci_service_send e (h @ [Hci_service_send d]) < 0 \<Longrightarrow>
      gather (to_host e) h (blocked_round d fatal k) = []"
proof -
  have k: "unat (k + 1) = Suc (unat k)"
    using assms by (simp add: unat_word_ariths)
  then have c: "k + 1 > 10 \<longleftrightarrow> unat k = 10"
    using assms by (auto simp: word_less_nat_alt)
  then show "unat (next_retry k) \<le> 10"
    "warnings (blocked_round d fatal k) * 11 + unat (next_retry k) = Suc (unat k)"
    using assms k by (auto simp: next_retry_def blocked_round_def)
  show "attempts (blocked_round d fatal k) = 1"
    "list_all (is_send_call fatal) (blocked_round d fatal k)"
    "gather (acquired e) h (blocked_round d fatal k) = []"
    "gather (released e) h (blocked_round d fatal k) = []"
    "gather to_controller h (blocked_round d fatal k) = []"
    "o_hci_service_send e (h @ [Hci_service_send d]) < 0 \<Longrightarrow>
      gather (to_host e) h (blocked_round d fatal k) = []"
    by (simp_all add: blocked_round_def acquired_def released_def to_controller_def to_host_def)
qed

text \<open>A loop that ends: every attempt but the last was refused.\<close>

lemma hci_send_loop_result:
  assumes "unat k \<le> 10" and "result (hci_send_loop e fuel buf fatal k) s = Some r"
  shows "\<exists>cs. exec (hci_send_loop e fuel buf fatal k) s = s\<lparr>net_calls := net_calls s @ cs\<rparr> \<and>
    list_all (is_send_call fatal) cs \<and> 0 < attempts cs \<and> attempts cs \<le> fuel \<and>
    warnings cs = (unat k + attempts cs - 1) div 11 \<and>
    gather (acquired e) (net_calls s) cs = [] \<and> gather (released e) (net_calls s) cs = [] \<and>
    gather to_controller (net_calls s) cs = [] \<and>
    gather (to_host e) (net_calls s) cs = [nb_data buf]"
  using assms
proof (induction fuel arbitrary: s k)
  case 0
  then show ?case by simp
next
  case (Suc fuel)
  let ?d = "nb_data buf" and ?h = "net_calls s @ [Hci_service_send (nb_data buf)]"
  show ?case
  proof (cases "o_hci_service_send e ?h < 0")
    case False
    with Suc.prems(1) show ?thesis
      by (intro exI [of _ "[Hci_service_send ?d]"])
        (simp add: hci_send_loop_Suc Let_def acquired_def released_def to_controller_def to_host_def
          del: hci_send_loop.simps)
  next
    case True
    let ?r = "blocked_round ?d fatal k"
    let ?s = "s\<lparr>net_calls := net_calls s @ ?r\<rparr>"
    note b = blocked_round_counts [OF Suc.prems(1)]
    have run: "run_state (hci_send_loop e (Suc fuel) buf fatal k) s =
        run_state (hci_send_loop e fuel buf fatal (next_retry k)) ?s"
      using True by (simp add: hci_send_loop_Suc Let_def del: hci_send_loop.simps)
    obtain cs where cs: "exec (hci_send_loop e fuel buf fatal (next_retry k)) ?s =
        ?s\<lparr>net_calls := net_calls ?s @ cs\<rparr>" "list_all (is_send_call fatal) cs" "0 < attempts cs"
        "attempts cs \<le> fuel" "warnings cs = (unat (next_retry k) + attempts cs - 1) div 11"
        "gather (acquired e) (net_calls ?s) cs = []" "gather (released e) (net_calls ?s) cs = []"
        "gather to_controller (net_calls ?s) cs = []" "gather (to_host e) (net_calls ?s) cs = [?d]"
      using Suc.IH [OF b(1), of ?s] Suc.prems(2) unfolding run by blast
    have "warnings (?r @ cs) = (warnings ?r * 11 + unat (next_retry k) + attempts cs - 1) div 11"
      using cs(3,5) by (simp add: div_mult_self3 add.assoc)
    then have w: "warnings (?r @ cs) = (unat k + attempts (?r @ cs) - 1) div 11"
      using b(2,3) by simp
    show ?thesis
      unfolding run using cs b(2,4-7) b(8) [OF True] w
      by (intro exI [of _ "?r @ cs"]) (simp add: gather_append)
  qed
qed

end
