(* ===== verification/Net_Main.thy ===== *)
theory Net_Main
  imports Net_Platform
begin

text \<open>
  \<^verbatim>\<open>main\<close> of the network core, \<^verbatim>\<open>app/cpunet/src/main.c\<close>, up to its endless loop. The
  shared mark decides what the core is for this boot: a satellite transmitter when it is
  0, a Bluetooth controller otherwise. The value says which loop is entered, or the error
  \<^verbatim>\<open>main\<close> returned.
\<close>

datatype net_mode = Sat_mode | Hci_mode | Stopped int

definition net_main_start :: "net_env \<Rightarrow> u32 \<Rightarrow> ('a net_world_scheme, net_mode) state" where
  "net_main_start e mark =
     (if mark = 0 then do {
        net_tell Thread_create;
        err \<leftarrow> net_ask (o_open_instance e) Open_instance;
        if err < 0 \<and> err \<noteq> - NET_EALREADY e then ret (Stopped err)
        else do {
          err \<leftarrow> net_ask (o_register_endpoint e) Register_endpoint;
          if err < 0 then ret (Stopped err)
          else do {
            net_tell Take_bound_sem;
            ret Sat_mode
          }
        }
      }
      else do {
        net_tell Bt_enable_raw;
        net_tell Thread_create;
        _ \<leftarrow> net_ask (o_open_instance e) Open_instance;
        _ \<leftarrow> net_ask (o_register_endpoint e) Register_endpoint;
        net_tell Take_bound_sem;
        ret Hci_mode
      })"

definition is_start_call :: "net_call \<Rightarrow> bool" where
  "is_start_call c \<longleftrightarrow> c \<in> {Thread_create, Open_instance, Register_endpoint, Take_bound_sem, Bt_enable_raw}"

lemma net_main_start_run:
  fixes s :: "'a net_world_scheme"
  shows "\<exists>m cs. run_state (net_main_start e mark) s = (m, s\<lparr>net_calls := net_calls s @ cs\<rparr>) \<and>
     list_all is_start_call cs \<and> (m = Hci_mode \<longleftrightarrow> mark \<noteq> 0) \<and>
     (m = Sat_mode \<or> m = Hci_mode \<longrightarrow> cs \<noteq> [] \<and> last cs = Take_bound_sem)"
proof -
  let ?h1 = "[Thread_create, Open_instance]"
  let ?h2 = "?h1 @ [Register_endpoint]"
  let ?o = "o_open_instance e (net_calls s @ ?h1)"
  consider (hci) "mark \<noteq> 0" | (closed) "mark = 0" "?o < 0" "?o \<noteq> - NET_EALREADY e"
    | (failed) "mark = 0" "\<not> (?o < 0 \<and> ?o \<noteq> - NET_EALREADY e)"
        "o_register_endpoint e (net_calls s @ ?h2) < 0"
    | (sat) "mark = 0" "\<not> (?o < 0 \<and> ?o \<noteq> - NET_EALREADY e)"
        "\<not> o_register_endpoint e (net_calls s @ ?h2) < 0" by blast
  then show ?thesis
  proof cases
    case hci
    then show ?thesis
      by (intro exI [of _ Hci_mode] exI [of _ "Bt_enable_raw # ?h2 @ [Take_bound_sem]"])
        (simp add: net_main_start_def is_start_call_def)
  next
    case closed
    then show ?thesis
      by (intro exI [of _ "Stopped ?o"] exI [of _ ?h1]) (simp add: net_main_start_def is_start_call_def)
  next
    case failed
    then show ?thesis
      by (intro exI [of _ "Stopped (o_register_endpoint e (net_calls s @ ?h2))"] exI [of _ ?h2]) (auto simp: net_main_start_def is_start_call_def)
  next
    case sat
    then show ?thesis
      by (intro exI [of _ Sat_mode] exI [of _ "?h2 @ [Take_bound_sem]"]) (auto simp: net_main_start_def is_start_call_def)
  qed
qed

end
