(* ===== verification/Net_Hci_System.thy ===== *)
theory Net_Hci_System
  imports Net_Hci Net_Main "HOL-Library.Sublist"
begin

text \<open>
  The Bluetooth image as a transition system. Its steps are the activities of the
  network core: a packet from the host, the thread's round, a buffer from the
  controller, and a round of the main loop that ends.
\<close>

section \<open>Steps\<close>

definition hci_initial :: hci_state where
  "hci_initial = \<lparr>net_calls = [], tx_queue = [], rx_queue = [], ipc_ept_ready = False\<rparr>"

text \<open>
  \<open>hci_reach e rcv put s\<close>: the image, booted with a mark other than 0, can be in state
  \<open>s\<close> after it received the packets \<open>rcv\<close> from the host and the buffers \<open>put\<close> from the
  controller.
\<close>

inductive hci_reach :: "net_env \<Rightarrow> bytes list \<Rightarrow> net_buf list \<Rightarrow> hci_state \<Rightarrow> bool"
  for e :: net_env where
  boot: "run_state (net_main_start e mark) hci_initial = (Hci_mode, s) \<Longrightarrow> hci_reach e [] [] s"
| bound: "hci_reach e rcv put s \<Longrightarrow> hci_reach e rcv put (exec hci_ept_bound s)"
| from_host: "hci_reach e rcv put s \<Longrightarrow> hci_reach e (rcv @ [d]) put (exec (hci_ept_recv e d) s)"
| tx_round: "hci_reach e rcv put s \<Longrightarrow> hci_reach e rcv put (exec (tx_thread_round e) s)"
| from_controller: "hci_reach e rcv put s \<Longrightarrow>
    hci_reach e rcv (put @ [b]) (s\<lparr>rx_queue := rx_queue s @ [b]\<rparr>)"
| main_round: "hci_reach e rcv put s \<Longrightarrow> run_state (hci_main_round e fuel) s = (True, s') \<Longrightarrow>
    hci_reach e rcv put s'"

section \<open>The accounts of a run\<close>

text \<open>Every buffer is in a queue or was given back, once; what was passed on is in order.\<close>

definition buffers_balanced :: "net_env \<Rightarrow> net_buf list \<Rightarrow> hci_state \<Rightarrow> bool" where
  "buffers_balanced e put s \<longleftrightarrow>
     mset (gathered (acquired e) (net_calls s)) + mset (map nb_id put) =
     mset (gathered (released e) (net_calls s)) +
       mset (map nb_id (tx_queue s)) + mset (map nb_id (rx_queue s))"

definition passed_to_controller :: "hci_state \<Rightarrow> (bt_buf_type \<times> bytes) list" where
  "passed_to_controller s =
     gathered to_controller (net_calls s) @ map (\<lambda>b. (nb_type b, nb_data b)) (tx_queue s)"

definition passed_to_host :: "net_env \<Rightarrow> hci_state \<Rightarrow> bytes list" where
  "passed_to_host e s = gathered (to_host e) (net_calls s) @ map nb_data (rx_queue s)"

lemmas account_defs = buffers_balanced_def passed_to_controller_def passed_to_host_def

lemma tx_round_accounts:
  fixes s :: hci_state
  shows "buffers_balanced e put (exec (tx_thread_round e) s) = buffers_balanced e put s"
    and "passed_to_controller (exec (tx_thread_round e) s) = passed_to_controller s"
    and "passed_to_host e (exec (tx_thread_round e) s) = passed_to_host e s"
    and "ipc_ept_ready (exec (tx_thread_round e) s) = ipc_ept_ready s"
  by (cases "tx_queue s"; simp add: tx_thread_round_def account_defs gather_append acquired_def
      released_def to_controller_def to_host_def)+

lemma from_host_accounts:
  fixes s :: hci_state and e :: net_env and d :: bytes
  defines "s' \<equiv> exec (hci_ept_recv e d) s"
    and "bs \<equiv> (case host_packet e d of None \<Rightarrow> [] | Some p \<Rightarrow> packet_buffer e (net_calls s) p)"
  shows "buffers_balanced e put s' = buffers_balanced e put s"
    and "passed_to_controller s' = passed_to_controller s @ map (\<lambda>b. (nb_type b, nb_data b)) bs"
    and "passed_to_host e s' = passed_to_host e s"
    and "ipc_ept_ready s' = ipc_ept_ready s"
proof -
  obtain cs where cs: "run_state (hci_ipc_rx e d) s =
      ((), s\<lparr>net_calls := net_calls s @ cs, tx_queue := tx_queue s @ bs\<rparr>)"
    "recv_effect e (net_calls s) cs bs"
    using hci_ipc_rx_run [of e d s] unfolding bs_def by blast
  then show "buffers_balanced e put s' = buffers_balanced e put s"
    "passed_to_controller s' = passed_to_controller s @ map (\<lambda>b. (nb_type b, nb_data b)) bs"
    "passed_to_host e s' = passed_to_host e s" "ipc_ept_ready s' = ipc_ept_ready s"
    by (simp_all add: s'_def hci_ept_recv_def account_defs recv_effect_def gather_append ac_simps)
qed

lemma hci_ipc_send_run:
  assumes "run_state (hci_ipc_send e fuel buf fatal) s = (True, s')"
  shows "\<exists>cs. s' = s\<lparr>net_calls := net_calls s @ cs @ [Net_buf_unref (nb_id buf)]\<rparr> \<and>
    list_all (is_send_call fatal) cs \<and> 0 < attempts cs \<and> attempts cs \<le> fuel \<and>
    warnings cs = (attempts cs - 1) div 11 \<and>
    gather (acquired e) (net_calls s) cs = [] \<and> gather (released e) (net_calls s) cs = [] \<and>
    gather to_controller (net_calls s) cs = [] \<and>
    gather (to_host e) (net_calls s) cs = [nb_data buf]"
proof -
  obtain r where r: "result (hci_send_loop e fuel buf fatal 0) s = Some r"
    using assms by (auto simp: hci_ipc_send_def split: prod.splits option.splits)
  have "s' = (exec (hci_send_loop e fuel buf fatal 0) s)\<lparr>net_calls :=
      net_calls (exec (hci_send_loop e fuel buf fatal 0) s) @ [Net_buf_unref (nb_id buf)]\<rparr>"
    using assms r by (auto simp: hci_ipc_send_def split: prod.splits)
  then show ?thesis
    using hci_send_loop_result [of 0, OF _ r] by fastforce
qed

lemma main_round_accounts:
  fixes s :: hci_state
  assumes "run_state (hci_main_round e fuel) s = (True, s')"
  shows "buffers_balanced e put s' = buffers_balanced e put s"
    and "passed_to_controller s' = passed_to_controller s"
    and "passed_to_host e s' = passed_to_host e s"
    and "ipc_ept_ready s' = ipc_ept_ready s"
proof -
  have "buffers_balanced e put s' = buffers_balanced e put s \<and>
    passed_to_controller s' = passed_to_controller s \<and> passed_to_host e s' = passed_to_host e s \<and>
    ipc_ept_ready s' = ipc_ept_ready s"
  proof (cases "rx_queue s")
    case Nil
    with assms show ?thesis by (simp add: hci_main_round_def)
  next
    case (Cons b bs)
    with assms have "run_state (hci_ipc_send e fuel b False) (s\<lparr>rx_queue := bs\<rparr>) = (True, s')"
      by (simp add: hci_main_round_def)
    from hci_ipc_send_run [OF this] Cons show ?thesis
      by (auto simp: account_defs gather_append acquired_def released_def to_controller_def
          to_host_def)
  qed
  then show "buffers_balanced e put s' = buffers_balanced e put s"
    "passed_to_controller s' = passed_to_controller s" "passed_to_host e s' = passed_to_host e s"
    "ipc_ept_ready s' = ipc_ept_ready s" by auto
qed

lemma bound_accounts:
  fixes s :: hci_state
  shows "buffers_balanced e put (exec hci_ept_bound s) = buffers_balanced e put s"
    and "passed_to_controller (exec hci_ept_bound s) = passed_to_controller s"
    and "passed_to_host e (exec hci_ept_bound s) = passed_to_host e s"
    and "ipc_ept_ready (exec hci_ept_bound s) = ipc_ept_ready s"
  by (simp_all add: hci_ept_bound_def account_defs gather_append acquired_def released_def
      to_controller_def to_host_def)

lemma start_call_accounts:
  assumes "is_start_call c"
  shows "acquired e h c = []" and "released e h c = []" and "to_controller h c = []"
    and "to_host e h c = []"
  using assms
  by (auto simp: is_start_call_def acquired_def released_def to_controller_def to_host_def)

lemma boot_accounts:
  assumes "run_state (net_main_start e mark) hci_initial = (m, s)"
  shows "buffers_balanced e [] s" and "passed_to_controller s = []"
    and "passed_to_host e s = []" and "\<not> ipc_ept_ready s"
proof -
  obtain cs where s: "s = hci_initial\<lparr>net_calls := cs\<rparr>" "list_all is_start_call cs"
    using net_main_start_run [of e mark hci_initial] assms by (auto simp: hci_initial_def)
  have "acquired e h c = []" "released e h c = []" "to_controller h c = []" "to_host e h c = []"
    if "c \<in> set cs" for h c
    using s(2) that by (auto simp: list_all_iff start_call_accounts)
  then have "gather (acquired e) [] cs = []" "gather (released e) [] cs = []"
    "gather to_controller [] cs = []" "gather (to_host e) [] cs = []"
    by (simp_all add: gather_empty)
  then show "buffers_balanced e [] s" "passed_to_controller s = []" "passed_to_host e s = []"
    "\<not> ipc_ept_ready s"
    by (simp_all add: s(1) account_defs hci_initial_def)
qed

lemma controller_accounts:
  fixes s :: hci_state
  shows "buffers_balanced e (put @ [b]) (s\<lparr>rx_queue := rx_queue s @ [b]\<rparr>) = buffers_balanced e put s"
    and "passed_to_controller (s\<lparr>rx_queue := rx_queue s @ [b]\<rparr>) = passed_to_controller s"
    and "passed_to_host e (s\<lparr>rx_queue := rx_queue s @ [b]\<rparr>) = passed_to_host e s @ [nb_data b]"
  by (simp_all add: account_defs)

lemma hci_reach_accounts:
  "hci_reach e rcv put s \<Longrightarrow>
     buffers_balanced e put s \<and> passed_to_host e s = map nb_data put \<and> \<not> ipc_ept_ready s"
  by (induction rule: hci_reach.induct)
    (simp_all add: boot_accounts bound_accounts from_host_accounts tx_round_accounts
      controller_accounts main_round_accounts)

text \<open>The well-formed packets among those received.\<close>

definition host_packets :: "net_env \<Rightarrow> bytes list \<Rightarrow> (bt_buf_type \<times> bytes) list" where
  "host_packets e rcv =
     concat (map (\<lambda>d. case host_packet e d of None \<Rightarrow> [] | Some (ty, sz, pkt) \<Rightarrow> [(ty, pkt)]) rcv)"

lemma host_packets_snoc:
  "host_packets e (rcv @ [d]) = host_packets e rcv @
     (case host_packet e d of None \<Rightarrow> [] | Some (ty, sz, pkt) \<Rightarrow> [(ty, pkt)])"
  by (simp add: host_packets_def)

lemma packet_buffer_contents:
  "subseq (map (\<lambda>b. (nb_type b, nb_data b)) (packet_buffer e h (ty, sz, pkt))) [(ty, pkt)]"
  by (simp add: packet_buffer_def split: option.splits)

text \<open>There is always a buffer, with room for every packet.\<close>

definition buffers_suffice :: "net_env \<Rightarrow> bool" where
  "buffers_suffice e \<longleftrightarrow> (\<forall>h ty hdr. \<exists>i room.
     o_buf_get e (h @ [Bt_buf_get_tx ty hdr]) = Some (i, room) \<and> 65535 \<le> room)"

lemma packet_buffer_suffices:
  assumes "buffers_suffice e" and "length pkt \<le> 65535"
  shows "map (\<lambda>b. (nb_type b, nb_data b)) (packet_buffer e h (ty, sz, pkt)) = [(ty, pkt)]"
proof -
  obtain i room where "o_buf_get e (h @ [Bt_buf_get_tx ty (take sz pkt)]) = Some (i, room)"
    "65535 \<le> room" using assms(1) unfolding buffers_suffice_def by blast
  with assms(2) show ?thesis by (simp add: packet_buffer_def)
qed

lemma hci_reach_controller_subseq:
  "hci_reach e rcv put s \<Longrightarrow> subseq (passed_to_controller s) (host_packets e rcv)"
proof (induction rule: hci_reach.induct)
  case (from_host rcv put s d)
  then show ?case
    by (auto simp: from_host_accounts host_packets_snoc packet_buffer_contents
        intro!: list_emb_append_mono split: option.split)
qed (simp_all add: boot_accounts bound_accounts tx_round_accounts controller_accounts
    main_round_accounts)

lemma hci_reach_controller_all:
  "hci_reach e rcv put s \<Longrightarrow> buffers_suffice e \<Longrightarrow> \<forall>d \<in> set rcv. length d \<le> 65535 \<Longrightarrow>
    passed_to_controller s = host_packets e rcv"
proof (induction rule: hci_reach.induct)
  case (from_host rcv put s d)
  have len: "length pkt \<le> 65535" if "host_packet e d = Some (ty, sz, pkt)" for ty sz pkt
    using that from_host.prems(2)
    by (fastforce simp: host_packet_def split: list.splits if_splits)
  show ?case
  proof (cases "host_packet e d")
    case None
    with from_host show ?thesis by (simp add: from_host_accounts host_packets_snoc)
  next
    case (Some p)
    obtain ty sz pkt where "p = (ty, sz, pkt)" by (cases p)
    with Some from_host len show ?thesis
      by (simp add: from_host_accounts host_packets_snoc packet_buffer_suffices)
  qed
qed (simp_all add: boot_accounts bound_accounts tx_round_accounts controller_accounts
    main_round_accounts host_packets_def)

end
