(* ===== verification/Net_Sample.thy ===== *)
theory Net_Sample
  imports Net_Platform
begin

text \<open>
  A concrete platform of the network core, which shows that the hypotheses of its
  properties can hold: the header layouts are those of the HCI standard, the services and
  the radio accept everything, but the host's endpoint only after the first ten calls.
\<close>

definition sample_net_env :: net_env where
  "sample_net_env = \<lparr>
     cfg_vs_fatal_error = True, NET_EALREADY = 120,
     cmd_hdr_size = 3, cmd_param_len = (\<lambda>h. unat (h ! 2)),
     acl_hdr_size = 4, acl_len = (\<lambda>h. le_nat (drop 2 h)),
     iso_hdr_size = 4, iso_len = (\<lambda>h. le_word (drop 2 h)),
     bt_iso_hdr_len = (\<lambda>w. unat w mod 2 ^ 14),
     o_buf_get = (\<lambda>h. Some (length h, 65535)), o_bt_send = (\<lambda>_. 0),
     o_hci_service_send = (\<lambda>h. if length h < 10 then - 12 else 4),
     o_sat_service_send = (\<lambda>_. 4), o_make_event = (\<lambda>_. None),
     o_radio_init = (\<lambda>_. 0), o_radio_enable = (\<lambda>_. 0), o_radio_disable = (\<lambda>_. 0),
     o_radio_send = (\<lambda>_. 0), o_open_instance = (\<lambda>_. 0), o_register_endpoint = (\<lambda>_. 0),
     o_stale_frame = (\<lambda>_. []) \<rparr>"

lemma sample_net_env_fields [simp]:
  "cmd_hdr_size sample_net_env = 3" "cmd_param_len sample_net_env = (\<lambda>h. unat (h ! 2))"
  "o_buf_get sample_net_env = (\<lambda>h. Some (length h, 65535))"
  "o_hci_service_send sample_net_env = (\<lambda>h. if length h < 10 then - 12 else 4)"
  "o_sat_service_send sample_net_env = (\<lambda>_. 4)"
  by (simp_all add: sample_net_env_def)

end
