(* ===== verification/Hci_Properties.thy ===== *)
theory Hci_Properties
  imports Net_Hci_System Net_Sample
begin

text \<open>
  The properties of the Bluetooth image of the network core: packets pass in order and
  unchanged, no buffer is lost, sending ends, and what the image does on a fatal error.
\<close>

section \<open>A concrete platform\<close>

definition booted :: hci_state where
  "booted = hci_initial\<lparr>net_calls := [Bt_enable_raw, Thread_create, Open_instance,
     Register_endpoint, Take_bound_sem]\<rparr>"

lemma booted_reach: "hci_reach sample_net_env [] [] booted"
  by (rule hci_reach.boot [of _ 1]) (simp add: net_main_start_def booted_def hci_initial_def)

text \<open>A reset command without parameters, with its packet indicator.\<close>

definition reset_packet :: bytes where
  "reset_packet = [1, 3, 12, 0]"

lemma host_packet_reset:
  "host_packet sample_net_env reset_packet = Some (BT_BUF_CMD, 3, [3, 12, 0])"
  by (simp add: host_packet_def reset_packet_def HCI_IPC_CMD_def complete_packet_def)

section \<open>Packets\<close>

text \<open>C10: What the host sends reaches the controller in order and unchanged: the packets handed
  to the controller, followed by those queued for it, are a subsequence of the well-formed
  packets received, and all of them when there was always a buffer with room. In the other
  direction the host accepted, followed by what is queued for it, exactly the data of the
  buffers the controller put, in order.\<close>

theorem hci_packets_in_order:
  assumes "hci_reach e rcv put s"
  shows "subseq (gathered to_controller (net_calls s) @ map (\<lambda>b. (nb_type b, nb_data b)) (tx_queue s))
      (host_packets e rcv) \<and>
    (buffers_suffice e \<and> (\<forall>d \<in> set rcv. length d \<le> 65535) \<longrightarrow>
      gathered to_controller (net_calls s) @ map (\<lambda>b. (nb_type b, nb_data b)) (tx_queue s) =
      host_packets e rcv) \<and>
    gathered (to_host e) (net_calls s) @ map nb_data (rx_queue s) = map nb_data put"
  using hci_reach_controller_subseq [OF assms] hci_reach_controller_all [OF assms]
    hci_reach_accounts [OF assms]
  by (simp add: passed_to_controller_def passed_to_host_def)

theorem hci_packets_in_order_witness:
  "\<exists>s. hci_reach sample_net_env [reset_packet, [9]] [] s \<and>
     gathered to_controller (net_calls s) @ map (\<lambda>b. (nb_type b, nb_data b)) (tx_queue s) =
       [(BT_BUF_CMD, [3, 12, 0])]"
proof -
  obtain s where s: "hci_reach sample_net_env [reset_packet, [9]] [] s"
    using hci_reach.from_host [OF hci_reach.from_host [OF booted_reach], of reset_packet "[9]"]
    by auto
  have "buffers_suffice sample_net_env"
    by (simp add: buffers_suffice_def)
  moreover have "host_packets sample_net_env [reset_packet, [9]] = [(BT_BUF_CMD, [3, 12, 0])]"
    by (simp add: host_packets_def host_packet_reset)
      (simp add: host_packet_def hci_ipc_defs)
  ultimately show ?thesis
    using hci_packets_in_order [OF s] s by (auto simp: reset_packet_def)
qed

text \<open>A packet from the host gets at most one buffer, and exactly when it is well formed and
  a buffer with room for it is free; the buffer then holds the packet and is the last in the
  queue. Every other packet, of whatever length, leaves the queue as it was.\<close>

theorem hci_receive_spec:
  fixes s :: hci_state
  shows "tx_queue (exec (hci_ept_recv e data) s) = tx_queue s @
    (case host_packet e data of
       None \<Rightarrow> []
     | Some (ty, sz, pkt) \<Rightarrow>
         (case o_buf_get e (net_calls s @ [Bt_buf_get_tx ty (take sz pkt)]) of
            None \<Rightarrow> []
          | Some (i, room) \<Rightarrow>
              if length pkt - sz \<le> room
              then [\<lparr>nb_id = i, nb_type = ty, nb_data = pkt,
                     nb_tailroom = room - (length pkt - sz)\<rparr>]
              else []))"
proof -
  obtain cs where "run_state (hci_ipc_rx e data) s = ((), s\<lparr>net_calls := net_calls s @ cs,
      tx_queue := tx_queue s @ (case host_packet e data of None \<Rightarrow> []
        | Some p \<Rightarrow> packet_buffer e (net_calls s) p)\<rparr>)"
    using hci_ipc_rx_run [of e data s] by blast
  then show ?thesis
    by (simp add: hci_ept_recv_def packet_buffer_def split: option.split)
qed

text \<open>C11: No buffer is lost and none is given back twice: at every moment the buffers the image
  got, from the pools and from the controller, are those it gave back or passed on together
  with those in its two queues, with multiplicities.\<close>

theorem hci_no_buffer_lost:
  assumes "hci_reach e rcv put s"
  shows "mset (gathered (acquired e) (net_calls s)) + mset (map nb_id put) =
    mset (gathered (released e) (net_calls s)) +
      mset (map nb_id (tx_queue s)) + mset (map nb_id (rx_queue s))"
  using hci_reach_accounts [OF assms] by (simp add: buffers_balanced_def)

theorem hci_no_buffer_lost_witness:
  "\<exists>s. hci_reach sample_net_env [reset_packet] [] s \<and>
     mset (gathered (acquired sample_net_env) (net_calls s)) =
       mset (gathered (released sample_net_env) (net_calls s)) +
         mset (map nb_id (tx_queue s)) + mset (map nb_id (rx_queue s))"
proof -
  have "hci_reach sample_net_env ([] @ [reset_packet]) []
      (exec (hci_ept_recv sample_net_env reset_packet) booted)"
    by (rule hci_reach.from_host [OF booted_reach])
  then show ?thesis using hci_no_buffer_lost by fastforce
qed

section \<open>Sending to the host\<close>

lemma hci_send_loop_returns:
  assumes "\<And>cs. attempts cs = Suc n \<Longrightarrow> 0 \<le> o_hci_service_send e (net_calls s @ cs)"
    and "unat k \<le> 10"
  shows "\<exists>r. result (hci_send_loop e (Suc n) buf fatal k) s = Some r"
  using assms
proof (induction n arbitrary: s k)
  case 0
  have "0 \<le> o_hci_service_send e (net_calls s @ [Hci_service_send (nb_data buf)])"
    using 0 by simp
  then show ?case by (simp add: hci_send_loop_Suc Let_def del: hci_send_loop.simps)
next
  case (Suc n)
  let ?r = "blocked_round (nb_data buf) fatal k"
  note b = blocked_round_counts [OF Suc.prems(2)]
  have "\<exists>r. result (hci_send_loop e (Suc n) buf fatal (next_retry k))
      (s\<lparr>net_calls := net_calls s @ ?r\<rparr>) = Some r"
    using Suc.prems(1) b(1,2) by (intro Suc.IH) auto
  then show ?case
    by (subst hci_send_loop_Suc) (auto simp: Let_def simp del: hci_send_loop.simps)
qed

text \<open>C32: Sending a buffer ends when the endpoint accepts it after at most \<open>n\<close> refused attempts:
  then fuel for one more attempt is enough, the host gets the data once, the buffer is
  released once and last, there is one warning per eleven refused attempts, and in the mode
  of the fatal-error handlers nothing yields or waits.\<close>

theorem hci_send_returns:
  assumes "\<forall>cs. attempts cs = Suc n \<longrightarrow> 0 \<le> o_hci_service_send e (net_calls s @ cs)"
  shows "\<exists>cs. run_state (hci_ipc_send e (Suc n) buf fatal) s =
      (True, s\<lparr>net_calls := net_calls s @ cs @ [Net_buf_unref (nb_id buf)]\<rparr>) \<and>
    gather (to_host e) (net_calls s) cs = [nb_data buf] \<and>
    gather (released e) (net_calls s) cs = [] \<and>
    attempts cs \<le> Suc n \<and> warnings cs = (attempts cs - 1) div 11 \<and>
    list_all (is_send_call fatal) cs"
proof -
  obtain r where "result (hci_send_loop e (Suc n) buf fatal 0) s = Some r"
    using hci_send_loop_returns [of n e s 0 buf fatal] assms by auto
  then have "result (hci_ipc_send e (Suc n) buf fatal) s"
    by (cases "run_state (hci_send_loop e (Suc n) buf fatal 0) s")
      (simp add: hci_ipc_send_def del: hci_send_loop.simps)
  then obtain s' where s': "run_state (hci_ipc_send e (Suc n) buf fatal) s = (True, s')"
    by (cases "run_state (hci_ipc_send e (Suc n) buf fatal) s") auto
  from hci_ipc_send_run [OF this] s' show ?thesis by auto
qed

theorem hci_send_returns_witness:
  "\<exists>cs. run_state (hci_ipc_send sample_net_env 5 \<lparr>nb_id = 7, nb_type = BT_BUF_EVT,
       nb_data = [4, 14, 0], nb_tailroom = 0\<rparr> False) booted =
     (True, booted\<lparr>net_calls := net_calls booted @ cs @ [Net_buf_unref 7]\<rparr>)"
proof -
  have "attempts cs = Suc 4 \<Longrightarrow> Suc 4 \<le> length cs" for cs
    by (metis attempts_def length_filter_le)
  then have "\<forall>cs. attempts cs = Suc 4 \<longrightarrow>
      0 \<le> o_hci_service_send sample_net_env (net_calls booted @ cs)"
    by (fastforce simp: booted_def)
  from hci_send_returns [OF this, of "\<lparr>nb_id = 7, nb_type = BT_BUF_EVT, nb_data = [4, 14, 0],
    nb_tailroom = 0\<rparr>" False] show ?thesis by auto
qed

section \<open>Fatal errors\<close>

text \<open>C33: The flag that says that the endpoint is ready is never set, so the image never reports
  a fatal error to the host: in every state it can reach, both handlers only lock the
  interrupts, flush the log and stop, although the build has the reporting enabled.\<close>

theorem fatal_errors_not_reported:
  assumes "hci_reach e rcv put s"
  shows "run_state (bt_ctlr_assert_handle e fuel file line) s =
      (True, s\<lparr>net_calls := net_calls s @ [Irq_lock, Log_panic]\<rparr>) \<and>
    run_state (k_sys_fatal_error_handler e fuel reason esf) s =
      (True, s\<lparr>net_calls := net_calls s @ [Irq_lock, Log_panic]\<rparr>)"
  using hci_reach_accounts [OF assms]
  by (simp add: bt_ctlr_assert_handle_def k_sys_fatal_error_handler_def split: option.split)

theorem fatal_errors_not_reported_witness:
  "result (k_sys_fatal_error_handler sample_net_env 5 3 (Some 4)) booted \<and>
   net_calls (exec (bt_ctlr_assert_handle sample_net_env 5 ''lll.c'' 42) booted) =
     net_calls booted @ [Irq_lock, Log_panic]"
  using fatal_errors_not_reported [OF booted_reach] by simp

end
