(* ===== verification/Net_Sat.thy ===== *)
theory Net_Sat
  imports Net_Platform
begin

text \<open>
  The satellite half of the network core: \<^verbatim>\<open>app/cpunet/src/sat.c\<close>, and from
  \<^verbatim>\<open>app/cpunet/src/main.c\<close> the endpoint callback, the thread that executes commands and
  the loop that sends their acknowledgements. A message is stored in a buffer of
  \<^verbatim>\<open>sat_pool\<close> from the moment it is taken until it is released; commands and
  acknowledgements share the pool, and whoever needs a buffer waits for one.
\<close>

section \<open>State\<close>

text \<open>Where the thread is between its blocking calls.\<close>

datatype sat_tx_pc = Tx_waiting | Tx_processing ipc_msg | Tx_replying

record sat_net_state = net_world +
  sat_pool_free :: nat
  sat_queue :: "ipc_msg list"
  ack_queue :: "ipc_msg list"
  sat_tx_pc :: sat_tx_pc

definition CONFIG_SAT_IPC_PKT_COUNT :: nat where "CONFIG_SAT_IPC_PKT_COUNT = 8"

definition pool_alloc :: "('a sat_net_state_scheme, unit) state" where
  "pool_alloc = modify (\<lambda>s. s\<lparr>sat_pool_free := sat_pool_free s - 1\<rparr>)"

definition pool_unref :: "('a sat_net_state_scheme, unit) state" where
  "pool_unref = modify (\<lambda>s. s\<lparr>sat_pool_free := sat_pool_free s + 1\<rparr>)"

section \<open>Executing a command\<close>

text \<open>
  The frame of a message. A bare header has none; the dispatcher would read what its
  buffer held before.
\<close>

definition message_frame :: "net_env \<Rightarrow> ipc_msg \<Rightarrow> ('a net_world_scheme, bytes) state" where
  "message_frame e m = (case m of
     Packet_msg p \<Rightarrow> ret (packet p)
   | Base_msg b \<Rightarrow> gets (\<lambda>s. o_stale_frame e (net_calls s)))"

definition hubble_sat_process :: "net_env \<Rightarrow> ipc_msg \<Rightarrow> ('a net_world_scheme, int) state" where
  "hubble_sat_process e pkt = (case msg_cmd pkt of
     SAT_CMD_SEND \<Rightarrow> do {
       frame \<leftarrow> message_frame e pkt;
       net_ask (o_radio_send e) (Radio_packet_send frame)
     }
   | SAT_CMD_INIT \<Rightarrow> net_ask (o_radio_init e) Radio_init
   | SAT_CMD_ENABLE \<Rightarrow> net_ask (o_radio_enable e) Radio_enable
   | SAT_CMD_DISABLE \<Rightarrow> net_ask (o_radio_disable e) Radio_disable
   | SAT_CMD_OK \<Rightarrow> ret (- EINVAL)
   | SAT_CMD_FAIL \<Rightarrow> ret (- EINVAL))"

section \<open>The endpoint callback\<close>

text \<open>It waits while the pool is empty.\<close>

definition sat_ep_recv :: "ipc_msg \<Rightarrow> ('a sat_net_state_scheme, unit) state" where
  "sat_ep_recv pkt = do {
     pool_alloc;
     modify (\<lambda>s. s\<lparr>sat_queue := sat_queue s @ [pkt]\<rparr>)
   }"

definition sat_ep_bound :: "('a net_world_scheme, unit) state" where
  "sat_ep_bound = net_tell Give_bound_sem"

section \<open>The thread\<close>

text \<open>
  One round of \<^verbatim>\<open>sat_tx_thread\<close>, cut where it can wait: for a command, during the
  command, and for the buffer of the acknowledgement.
\<close>

definition sat_tx_get :: "('a sat_net_state_scheme, unit) state" where
  "sat_tx_get = modify (\<lambda>s. s\<lparr>sat_tx_pc := Tx_processing (hd (sat_queue s)),
                             sat_queue := tl (sat_queue s)\<rparr>)"

definition sat_tx_process :: "net_env \<Rightarrow> ipc_msg \<Rightarrow> ('a sat_net_state_scheme, int) state" where
  "sat_tx_process e buf = do {
     err \<leftarrow> hubble_sat_process e buf;
     pool_unref;
     modify (\<lambda>s. s\<lparr>sat_tx_pc := Tx_replying\<rparr>);
     ret err
   }"

definition sat_tx_reply :: "('a sat_net_state_scheme, unit) state" where
  "sat_tx_reply = do {
     pool_alloc;
     modify (\<lambda>s. s\<lparr>ack_queue := ack_queue s @ [base_msg SAT_CMD_OK]\<rparr>);
     net_tell K_yield;
     modify (\<lambda>s. s\<lparr>sat_tx_pc := Tx_waiting\<rparr>)
   }"

section \<open>The main loop\<close>

text \<open>One round with the acknowledgement \<open>buf\<close> at the head of the queue.\<close>

definition sat_main_round :: "net_env \<Rightarrow> ipc_msg \<Rightarrow> ('a sat_net_state_scheme, int) state" where
  "sat_main_round e buf = do {
     modify (\<lambda>s. s\<lparr>ack_queue := tl (ack_queue s)\<rparr>);
     r \<leftarrow> net_ask (o_sat_service_send e) (Sat_service_send buf);
     pool_unref;
     ret r
   }"

section \<open>What the operations change\<close>

text \<open>Executing a command changes nothing but the log of calls.\<close>

lemma hubble_sat_process_run:
  "\<exists>r cs. run_state (hubble_sat_process e m) s = (r, s\<lparr>net_calls := net_calls s @ cs\<rparr>) \<and>
     length cs \<le> 1"
proof (cases "msg_cmd m")
  case SAT_CMD_SEND
  then show ?thesis
    by (cases m) (auto simp: hubble_sat_process_def message_frame_def)
next
  case SAT_CMD_OK
  then show ?thesis
    by (intro exI [of _ "- EINVAL"] exI [of _ "[]"]) (simp add: hubble_sat_process_def)
next
  case SAT_CMD_FAIL
  then show ?thesis
    by (intro exI [of _ "- EINVAL"] exI [of _ "[]"]) (simp add: hubble_sat_process_def)
qed (auto simp: hubble_sat_process_def)

lemma sat_tx_process_run:
  "\<exists>r cs. run_state (sat_tx_process e m) s = (r, s\<lparr>net_calls := net_calls s @ cs,
     sat_pool_free := Suc (sat_pool_free s), sat_tx_pc := Tx_replying\<rparr>)"
proof -
  obtain r cs where "run_state (hubble_sat_process e m) s = (r, s\<lparr>net_calls := net_calls s @ cs\<rparr>)"
    using hubble_sat_process_run [of e m s] by blast
  then show ?thesis by (simp add: sat_tx_process_def pool_unref_def) blast
qed

lemmas sat_net_defs = sat_ep_recv_def sat_tx_get_def sat_tx_reply_def sat_main_round_def
  pool_alloc_def pool_unref_def

end
