(* ===== verification/Sat_Link.thy ===== *)
theory Sat_Link
  imports Net_Sat App_Ipc
begin

text \<open>
  The two cores together while the satellite image runs: the application core's
  \<^verbatim>\<open>ipc_send\<close> and endpoint callback (\<open>App_Ipc\<close>), the channel in each direction, and the
  network core's operations (\<open>Net_Sat\<close>), interleaved. The channels keep the order of
  messages; a message that the callback on the network core cannot store yet stays in
  \<open>inbox\<close>. The network core is booted for every satellite window; what the application
  keeps from one window to the next is its semaphore.
\<close>

section \<open>State\<close>

record link = sat_net_state +
  app_wait :: "ipc_msg option"
  ack_sem :: bool
  inbox :: "ipc_msg list"
  outbox :: "ipc_msg list"
  sent :: "ipc_msg list"
  served :: "ipc_msg list"
  results :: "(ipc_msg \<times> int) list"
  inherited :: bool

definition link_initial :: link where
  "link_initial = \<lparr>net_calls = [], sat_pool_free = CONFIG_SAT_IPC_PKT_COUNT, sat_queue = [],
     ack_queue = [], sat_tx_pc = Tx_waiting, app_wait = None, ack_sem = False, inbox = [],
     outbox = [], sent = [], served = [], results = [],
     inherited = False\<rparr>"

text \<open>The application's callback gives the semaphore for an acknowledgement.\<close>

definition acknowledges :: "ipc_msg \<Rightarrow> bool" where
  "acknowledges m \<longleftrightarrow> msg_cmd m = SAT_CMD_OK"

lemma acknowledges_ep_recv:
  "calls (exec (App_Ipc.ep_recv m) w) = calls w @ (if acknowledges m then [Sem_give Sat_sem] else [])"
  by (simp add: acknowledges_def ep_recv_def)

section \<open>Steps\<close>

inductive net_step :: "net_env \<Rightarrow> link \<Rightarrow> link \<Rightarrow> bool" for e :: net_env where
  net_recv: "inbox s = m # ms \<Longrightarrow> 0 < sat_pool_free s \<Longrightarrow>
    net_step e s ((exec (sat_ep_recv m) s)\<lparr>inbox := ms\<rparr>)"
| net_get: "sat_tx_pc s = Tx_waiting \<Longrightarrow> sat_queue s \<noteq> [] \<Longrightarrow> net_step e s (exec sat_tx_get s)"
| net_process: "sat_tx_pc s = Tx_processing m \<Longrightarrow>
    net_step e s ((exec (sat_tx_process e m) s)\<lparr>served := served s @ [m]\<rparr>)"
| net_reply: "sat_tx_pc s = Tx_replying \<Longrightarrow> 0 < sat_pool_free s \<Longrightarrow>
    net_step e s (exec sat_tx_reply s)"
| net_main: "ack_queue s = m # ms \<Longrightarrow> run_state (sat_main_round e m) s = (r, s') \<Longrightarrow>
    net_step e s (s'\<lparr>outbox := outbox s' @ (if r < 0 then [] else [m])\<rparr>)"

text \<open>
  \<^verbatim>\<open>ipc_send\<close>, called by one thread: a message that was accepted starts a wait, which
  ends with 0 when the semaphore is available and with -EAGAIN after three seconds.
\<close>

inductive link_step :: "net_env \<Rightarrow> link \<Rightarrow> link \<Rightarrow> bool" for e :: net_env where
  net: "net_step e s s' \<Longrightarrow> link_step e s s'"
| app_send: "app_wait s = None \<Longrightarrow>
    link_step e s (s\<lparr>app_wait := Some m, inbox := inbox s @ [m], sent := sent s @ [m]\<rparr>)"
| app_recv: "outbox s = m # ms \<Longrightarrow>
    link_step e s (s\<lparr>outbox := ms, ack_sem := ack_sem s \<or> acknowledges m\<rparr>)"
| app_take: "app_wait s = Some m \<Longrightarrow> ack_sem s \<Longrightarrow>
    link_step e s (s\<lparr>app_wait := None, ack_sem := False, results := results s @ [(m, 0)]\<rparr>)"
| app_timeout: "app_wait s = Some m \<Longrightarrow> \<not> ack_sem s \<Longrightarrow>
    link_step e s (s\<lparr>app_wait := None, results := results s @ [(m, - EAGAIN)]\<rparr>)"

text \<open>
  Between two windows the core is switched off and booted again, with empty queues and
  channels; the accounts \<open>sent\<close>, \<open>served\<close> and \<open>results\<close> are those of the current window, and
  \<open>inherited\<close> tells whether the semaphore was available when it began.
\<close>

definition next_window :: "link \<Rightarrow> link" where
  "next_window s = link_initial\<lparr>net_calls := net_calls s, ack_sem := ack_sem s,
     inherited := ack_sem s\<rparr>"

inductive link_reach :: "net_env \<Rightarrow> link \<Rightarrow> bool" for e :: net_env where
  link_reach_initial: "link_reach e link_initial"
| link_reach_step: "link_reach e s \<Longrightarrow> link_step e s s' \<Longrightarrow> link_reach e s'"
| link_reach_window: "link_reach e s \<Longrightarrow> app_wait s = None \<Longrightarrow> link_reach e (next_window s)"

text \<open>The effect of the network core's operations, step by step.\<close>

lemma net_step_cases:
  assumes "net_step e s s'"
  obtains (recv) m ms where "inbox s = m # ms" "0 < sat_pool_free s"
      "s' = s\<lparr>sat_pool_free := sat_pool_free s - 1, sat_queue := sat_queue s @ [m], inbox := ms\<rparr>"
    | (get) m ms where "sat_tx_pc s = Tx_waiting" "sat_queue s = m # ms"
      "s' = s\<lparr>sat_tx_pc := Tx_processing m, sat_queue := ms\<rparr>"
    | (process) m cs where "sat_tx_pc s = Tx_processing m"
      "s' = s\<lparr>net_calls := net_calls s @ cs, sat_pool_free := Suc (sat_pool_free s),
              sat_tx_pc := Tx_replying, served := served s @ [m]\<rparr>"
    | (reply) cs where "sat_tx_pc s = Tx_replying" "0 < sat_pool_free s"
      "s' = s\<lparr>net_calls := net_calls s @ cs, sat_pool_free := sat_pool_free s - 1,
              sat_tx_pc := Tx_waiting, ack_queue := ack_queue s @ [base_msg SAT_CMD_OK]\<rparr>"
    | (main) m ms cs out where "ack_queue s = m # ms" "out \<in> {[], [m]}"
      "s' = s\<lparr>net_calls := net_calls s @ cs, sat_pool_free := Suc (sat_pool_free s),
              ack_queue := ms, outbox := outbox s @ out\<rparr>"
  using assms
proof cases
  case (net_recv m ms)
  then show ?thesis by (intro that(1)) (auto simp: sat_net_defs)
next
  case net_get
  then show ?thesis by (cases "sat_queue s") (auto intro!: that(2) simp: sat_net_defs)
next
  case (net_process m)
  then show ?thesis using sat_tx_process_run [of e m s] by (auto intro!: that(3))
next
  case net_reply
  then show ?thesis by (intro that(4) [of "[K_yield]"]) (auto simp: sat_net_defs)
next
  case (net_main m ms r s'')
  then show ?thesis
    by (intro that(5) [of m ms "if r < 0 then [] else [m]" "[Sat_service_send m]"]) (auto simp: sat_net_defs)
qed

section \<open>The invariant\<close>

definition processing :: "link \<Rightarrow> ipc_msg list" where
  "processing s = (case sat_tx_pc s of Tx_processing m \<Rightarrow> [m] | _ \<Rightarrow> [])"

text \<open>Commands that were sent and whose acknowledgement has not left the network core.\<close>

definition unanswered :: "link \<Rightarrow> nat" where
  "unanswered s = length (inbox s) + length (sat_queue s) +
     (if sat_tx_pc s = Tx_waiting then 0 else 1) + length (ack_queue s)"

definition timeouts :: "link \<Rightarrow> nat" where
  "timeouts s = length (filter (\<lambda>r. snd r \<noteq> 0) (results s))"

definition pool_ok :: "link \<Rightarrow> bool" where
  "pool_ok s \<longleftrightarrow> sat_pool_free s + length (sat_queue s) + length (processing s) +
     length (ack_queue s) = CONFIG_SAT_IPC_PKT_COUNT"

definition link_inv :: "link \<Rightarrow> bool" where
  "link_inv s \<longleftrightarrow> pool_ok s \<and>
     sent s = served s @ processing s @ sat_queue s @ inbox s \<and>
     (\<forall>m \<in> set (ack_queue s) \<union> set (outbox s). m = base_msg SAT_CMD_OK) \<and>
     sent s = map fst (results s) @ (case app_wait s of None \<Rightarrow> [] | Some m \<Rightarrow> [m]) \<and>
     snd ` set (results s) \<subseteq> {0, - EAGAIN} \<and>
     unanswered s + length (outbox s) + of_bool (ack_sem s) \<le>
       timeouts s + of_bool (app_wait s \<noteq> None) + of_bool (inherited s)"

lemmas link_inv_defs = link_inv_def pool_ok_def processing_def unanswered_def timeouts_def

lemma link_inv_initial: "link_inv link_initial"
  by (simp add: link_inv_defs link_initial_def)

lemma processing_simps [simp]:
  "sat_tx_pc s = Tx_waiting \<Longrightarrow> processing s = []"
  "sat_tx_pc s = Tx_processing m \<Longrightarrow> processing s = [m]"
  "sat_tx_pc s = Tx_replying \<Longrightarrow> processing s = []"
  by (simp_all add: processing_def)

lemma processing_update: "sat_tx_pc s' = sat_tx_pc s \<Longrightarrow> processing s' = processing s"
  by (simp add: processing_def)

lemma link_inv_net_step: "net_step e s s' \<Longrightarrow> link_inv s \<Longrightarrow> link_inv s'"
proof (erule net_step_cases)
  fix m ms
  assume i: "link_inv s" and a: "inbox s = m # ms" "0 < sat_pool_free s"
      "s' = s\<lparr>sat_pool_free := sat_pool_free s - 1, sat_queue := sat_queue s @ [m], inbox := ms\<rparr>"
  have "processing s' = processing s" by (rule processing_update) (simp add: a(3))
  with i a show "link_inv s'" by (auto simp: link_inv_def pool_ok_def unanswered_def timeouts_def)
next
  fix m ms cs out
  assume i: "link_inv s" and a: "ack_queue s = m # ms" "out \<in> {[], [m]}"
      "s' = s\<lparr>net_calls := net_calls s @ cs, sat_pool_free := Suc (sat_pool_free s),
              ack_queue := ms, outbox := outbox s @ out\<rparr>"
  have "processing s' = processing s" by (rule processing_update) (simp add: a(3))
  with i a show "link_inv s'" by (auto simp: link_inv_def pool_ok_def unanswered_def timeouts_def)
qed (auto simp: link_inv_def pool_ok_def unanswered_def timeouts_def)

lemma link_inv_step: "link_step e s s' \<Longrightarrow> link_inv s \<Longrightarrow> link_inv s'"
proof (induction rule: link_step.induct)
  case (net s s')
  then show ?case by (rule link_inv_net_step)
qed (auto simp: link_inv_defs EAGAIN_def)

lemma link_inv_window: "link_inv (next_window s)"
  by (simp add: link_inv_defs next_window_def link_initial_def)

lemma link_reach_inv: "link_reach e s \<Longrightarrow> link_inv s"
  by (induction rule: link_reach.induct)
    (auto intro: link_inv_initial link_inv_step link_inv_window)

section \<open>Progress\<close>

text \<open>The steps the network core has left: every one of its steps takes one of them.\<close>

definition net_work :: "link \<Rightarrow> nat" where
  "net_work s = 5 * length (inbox s) + 4 * length (sat_queue s) +
     (case sat_tx_pc s of Tx_waiting \<Rightarrow> 0 | Tx_processing m \<Rightarrow> 3 | Tx_replying \<Rightarrow> 2) +
     length (ack_queue s)"

lemma net_step_work: "net_step e s s' \<Longrightarrow> Suc (net_work s') = net_work s"
  by (erule net_step_cases) (simp_all add: net_work_def)

lemma net_step_unanswered: "net_step e s s' \<Longrightarrow> unanswered s' \<le> unanswered s"
  by (erule net_step_cases) (auto simp: unanswered_def)

lemma net_step_exists:
  assumes "pool_ok s" and "unanswered s \<le> CONFIG_SAT_IPC_PKT_COUNT" and "0 < net_work s"
  shows "\<exists>s'. net_step e s s'"
proof (cases "ack_queue s")
  case (Cons m ms)
  then show ?thesis by (meson net_main surj_pair)
next
  case Nil
  show ?thesis
  proof (cases "sat_tx_pc s")
    case Tx_waiting
    show ?thesis
    proof (cases "sat_queue s")
      case (Cons m ms)
      with Tx_waiting show ?thesis using net_get [of s e] by auto
    next
      case empty: Nil
      with Nil Tx_waiting assms(1,3) obtain m ms where "inbox s = m # ms" "0 < sat_pool_free s"
        by (cases "inbox s")
          (auto simp: net_work_def pool_ok_def processing_def CONFIG_SAT_IPC_PKT_COUNT_def)
      then show ?thesis by (blast intro: net_recv)
    qed
  next
    case (Tx_processing m)
    then show ?thesis by (blast intro: net_process)
  next
    case Tx_replying
    with Nil assms(1,2) have "0 < sat_pool_free s"
      by (auto simp: unanswered_def pool_ok_def processing_def)
    with Tx_replying show ?thesis by (blast intro: net_reply)
  qed
qed

lemma net_work_zero: "link_inv s \<Longrightarrow> net_work s = 0 \<Longrightarrow> unanswered s = 0 \<and> served s = sent s"
  by (auto simp: link_inv_defs net_work_def split: sat_tx_pc.splits)

lemma net_drains:
  "link_inv s \<Longrightarrow> unanswered s \<le> CONFIG_SAT_IPC_PKT_COUNT \<Longrightarrow> net_work s = n \<Longrightarrow>
   \<exists>s'. (net_step e ^^ n) s s' \<and> link_inv s' \<and> net_work s' = 0"
proof (induction n arbitrary: s)
  case 0
  then show ?case by auto
next
  case (Suc n)
  then have "pool_ok s" "0 < net_work s" by (simp_all add: link_inv_def)
  with Suc.prems(2) obtain s1 where s1: "net_step e s s1"
    using net_step_exists by blast
  with Suc.prems have "link_inv s1" "unanswered s1 \<le> CONFIG_SAT_IPC_PKT_COUNT" "net_work s1 = n"
    using link_inv_net_step net_step_unanswered [OF s1] net_step_work [OF s1] by auto
  from Suc.IH [OF this] s1 show ?case by (meson relpowp_Suc_I2)
qed

lemma net_steps_work: "(net_step e ^^ n) s s' \<Longrightarrow> net_work s = n + net_work s'"
proof (induction n arbitrary: s')
  case 0
  then show ?case by simp
next
  case (Suc n)
  then obtain s1 where "(net_step e ^^ n) s s1" "net_step e s1 s'" by auto
  with Suc.IH show ?case using net_step_work by fastforce
qed

end
