(* ===== verification/Link_Properties.thy ===== *)
theory Link_Properties
  imports Sat_Link Net_Sample
begin

text \<open>
  The properties of the protocol between the two cores while the satellite image runs:
  what an acknowledgement tells the application, and when the network core keeps
  answering.
\<close>

section \<open>Runs\<close>

text \<open>The parts of the network core, as it is between commands.\<close>

definition net_idle :: "link \<Rightarrow> bool" where
  "net_idle s \<longleftrightarrow> sat_pool_free s = CONFIG_SAT_IPC_PKT_COUNT \<and> sat_queue s = [] \<and>
     ack_queue s = [] \<and> sat_tx_pc s = Tx_waiting \<and> inbox s = [] \<and> outbox s = []"

lemma net_idle_initial: "net_idle link_initial"
  by (simp add: net_idle_def link_initial_def)

text \<open>A command that reached the core is executed and its acknowledgement delivered.\<close>

lemma core_serves:
  assumes "link_reach e s" and "\<And>h. 0 \<le> o_sat_service_send e h"
    and "inbox s = [m]" "sat_queue s = []" "ack_queue s = []" "outbox s = []"
    and "sat_tx_pc s = Tx_waiting" "sat_pool_free s = CONFIG_SAT_IPC_PKT_COUNT"
  shows "\<exists>cs. link_reach e (s\<lparr>net_calls := cs, inbox := [], ack_sem := True,
    served := served s @ [m]\<rparr>)"
proof -
  let ?n = CONFIG_SAT_IPC_PKT_COUNT
  have n: "0 < ?n" by (simp add: CONFIG_SAT_IPC_PKT_COUNT_def)
  obtain nc w b se sv rs ih where s: "s = \<lparr>net_calls = nc, sat_pool_free = ?n, sat_queue = [],
      ack_queue = [], sat_tx_pc = Tx_waiting, app_wait = w, ack_sem = b, inbox = [m], outbox = [],
      sent = se, served = sv, results = rs, inherited = ih\<rparr>"
    using assms(3-8) by (cases s) auto
  let ?s1 = "(exec (sat_ep_recv m) s)\<lparr>inbox := []\<rparr>"
  have r1: "link_reach e ?s1"
    using n by (intro link_reach_step [OF assms(1)] net net_recv) (simp_all add: s)
  let ?s2 = "exec sat_tx_get ?s1"
  have r2: "link_reach e ?s2"
    by (intro link_reach_step [OF r1] net net_get) (simp_all add: s sat_net_defs)
  let ?s3 = "(exec (sat_tx_process e m) ?s2)\<lparr>served := served ?s2 @ [m]\<rparr>"
  have r3: "link_reach e ?s3"
    by (intro link_reach_step [OF r2] net net_process) (simp add: s sat_net_defs)
  obtain cs t where t: "t = \<lparr>net_calls = cs, sat_pool_free = ?n, sat_queue = [],
      ack_queue = [], sat_tx_pc = Tx_replying, app_wait = w, ack_sem = b, inbox = [], outbox = [],
      sent = se, served = sv @ [m], results = rs, inherited = ih\<rparr>" and "?s3 = t"
    using sat_tx_process_run [of e m ?s2] n by (auto simp: s sat_net_defs)
  with r3 have r3: "link_reach e t" by simp
  let ?s4 = "exec sat_tx_reply t"
  have r4: "link_reach e ?s4"
    using n by (intro link_reach_step [OF r3] net net_reply) (simp_all add: t)
  let ?a = "base_msg SAT_CMD_OK" and ?cs = "cs @ [K_yield, Sat_service_send (base_msg SAT_CMD_OK)]"
  let ?s5 = "\<lparr>net_calls = ?cs, sat_pool_free = ?n, sat_queue = [],
      ack_queue = [], sat_tx_pc = Tx_waiting, app_wait = w, ack_sem = b, inbox = [], outbox = [?a],
      sent = se, served = sv @ [m], results = rs, inherited = ih\<rparr>"
  have ok: "\<not> o_sat_service_send e h < 0" for h using assms(2) by (simp add: not_less)
  have "net_step e ?s4 ?s5"
    using net_main [of ?s4 ?a "[]" e] n by (simp add: t sat_net_defs ok)
  then have r5: "link_reach e ?s5" by (intro link_reach_step [OF r4] net)
  have "link_step e ?s5 (?s5\<lparr>outbox := [], ack_sem := True\<rparr>)"
    using app_recv [of ?s5 ?a "[]" e] by (simp add: acknowledges_def)
  from link_reach_step [OF r5 this] show ?thesis by (intro exI [of _ ?cs]) (simp add: s)
qed

lemma app_sends:
  "link_reach e s \<Longrightarrow> app_wait s = None \<Longrightarrow>
     link_reach e (s\<lparr>app_wait := Some m, inbox := inbox s @ [m], sent := sent s @ [m]\<rparr>)"
  by (blast intro: link_reach_step app_send)

lemma app_takes:
  "link_reach e s \<Longrightarrow> app_wait s = Some m \<Longrightarrow> ack_sem s \<Longrightarrow>
     link_reach e (s\<lparr>app_wait := None, ack_sem := False, results := results s @ [(m, 0)]\<rparr>)"
  by (blast intro: link_reach_step app_take)

lemma app_gives_up:
  "link_reach e s \<Longrightarrow> app_wait s = Some m \<Longrightarrow> \<not> ack_sem s \<Longrightarrow>
     link_reach e (s\<lparr>app_wait := None, results := results s @ [(m, - EAGAIN)]\<rparr>)"
  by (blast intro: link_reach_step app_timeout)

section \<open>Acknowledgements\<close>

lemma one_command_run:
  assumes "\<And>h. 0 \<le> o_sat_service_send e h"
  shows "\<exists>s. link_reach e s \<and> results s = [(c, 0)] \<and> app_wait s = None \<and> sent s = [c] \<and>
    \<not> inherited s"
proof -
  let ?s0 = "link_initial\<lparr>app_wait := Some c, inbox := [c], sent := [c]\<rparr>"
  have "link_reach e ?s0"
    using app_sends [OF link_reach_initial, where m = c and e = e] by (simp add: link_initial_def)
  from core_serves [OF this assms, of c] obtain cs where
    "link_reach e (?s0\<lparr>net_calls := cs, inbox := [], ack_sem := True, served := [c]\<rparr>)"
    by (auto simp: link_initial_def)
  from app_takes [OF this, of c] show ?thesis by (auto simp: link_initial_def)
qed

text \<open>C6: As long as no wait has timed out in this window, and the semaphore was not available
  when it began, the two cores run in lockstep: whenever the application is not waiting,
  every command it sent was executed by the network core, in the order sent, every \<open>ipc_send\<close> returned 0, no acknowledgement is left over and all
  buffers of the pool are free.\<close>

theorem commands_run_in_lockstep:
  assumes "link_reach e s" and "\<forall>r \<in> set (results s). snd r = 0" and "app_wait s = None"
    and "\<not> inherited s"
  shows "served s = sent s \<and> results s = map (\<lambda>m. (m, 0)) (sent s) \<and>
    net_idle s \<and> \<not> ack_sem s"
proof -
  have inv: "link_inv s" using assms(1) by (rule link_reach_inv)
  have "timeouts s = 0" using assms(2) by (simp add: timeouts_def filter_empty_conv)
  with inv assms(3,4) have z: "unanswered s = 0" "outbox s = []" "\<not> ack_sem s"
    by (auto simp: link_inv_def)
  then have w: "sat_tx_pc s = Tx_waiting" "sat_queue s = []" "inbox s = []" "ack_queue s = []"
    by (auto simp: unanswered_def split: if_splits)
  have "sent s = map fst (results s)"
    using inv assms(3) unfolding link_inv_def by (metis append_Nil2 option.simps(4))
  then have res: "results s = map (\<lambda>m. (m, 0)) (sent s)"
    using assms(2) by (auto simp: prod_eq_iff intro!: map_idI [symmetric])
  have "served s = sent s" "sat_pool_free s = CONFIG_SAT_IPC_PKT_COUNT"
    using inv w by (simp_all add: link_inv_def pool_ok_def processing_def)
  with z w res show ?thesis by (simp add: net_idle_def)
qed

theorem commands_run_in_lockstep_witness:
  "\<exists>s. link_reach sample_net_env s \<and> served s = [base_msg SAT_CMD_INIT] \<and>
     results s = [(base_msg SAT_CMD_INIT, 0)] \<and> net_idle s"
proof -
  obtain s where s: "link_reach sample_net_env s" "results s = [(base_msg SAT_CMD_INIT, 0)]"
      "app_wait s = None" "sent s = [base_msg SAT_CMD_INIT]" "\<not> inherited s"
    using one_command_run [of sample_net_env "base_msg SAT_CMD_INIT"]
    by auto
  with commands_run_in_lockstep [of sample_net_env s] show ?thesis by auto
qed

lemma out_of_step:
  assumes "\<And>h. 0 \<le> o_sat_service_send e h"
  shows "\<exists>s. link_reach e s \<and> app_wait s = None \<and> ack_sem s \<and> net_idle s \<and>
    served s = c # ds \<and> results s = (c, - EAGAIN) # map (\<lambda>m. (m, 0)) ds"
proof (induction ds rule: rev_induct)
  case Nil
  let ?s0 = "link_initial\<lparr>app_wait := Some c, inbox := [c], sent := [c]\<rparr>"
  let ?s1 = "?s0\<lparr>app_wait := None, results := [(c, - EAGAIN)]\<rparr>"
  have "link_reach e ?s0"
    using app_sends [OF link_reach_initial, where m = c and e = e] by (simp add: link_initial_def)
  then have "link_reach e ?s1"
    using app_gives_up [where e = e and s = ?s0 and m = c] by (simp add: link_initial_def)
  from core_serves [OF this assms, of c] show ?case
    by (auto simp: link_initial_def net_idle_def)
next
  case (snoc d ds)
  then obtain s where s: "link_reach e s" "app_wait s = None" "ack_sem s" "net_idle s"
    "served s = c # ds" "results s = (c, - EAGAIN) # map (\<lambda>m. (m, 0)) ds" by blast
  let ?s1 = "s\<lparr>app_wait := Some d, inbox := inbox s @ [d], sent := sent s @ [d]\<rparr>"
  let ?s2 = "?s1\<lparr>app_wait := None, ack_sem := False, results := results s @ [(d, 0)]\<rparr>"
  have "link_reach e ?s2"
    using app_takes [OF app_sends [OF s(1,2), of d], of d] s(3) by simp
  from core_serves [OF this assms, of d] s(2-) show ?case
    by (auto simp: net_idle_def)
qed






lemma net_step_radio:
  assumes "net_step e s s'"
  shows "net_step (e\<lparr>o_radio_init := ri, o_radio_enable := re, o_radio_disable := rd,
    o_radio_send := rs\<rparr>) s s'"
  using assms
proof cases
  case (net_process m)
  let ?e = "e\<lparr>o_radio_init := ri, o_radio_enable := re, o_radio_disable := rd, o_radio_send := rs\<rparr>"
  have "exec (sat_tx_process ?e m) s = exec (sat_tx_process e m) s"
    by (cases m) (simp_all add: sat_tx_process_def hubble_sat_process_def message_frame_def
      pool_unref_def split: sat_ipc_command.split)
  with net_process show ?thesis using net_step.net_process [of s m ?e] by simp
next
  case (net_main m ms r s'')
  then show ?thesis using net_step.net_main [of s m ms] by (simp add: sat_main_round_def)
qed (auto intro: net_step.intros)

lemma link_step_radio:
  "link_step e s s' \<Longrightarrow> link_step (e\<lparr>o_radio_init := ri, o_radio_enable := re,
    o_radio_disable := rd, o_radio_send := rs\<rparr>) s s'"
  by (induction rule: link_step.induct) (auto intro: link_step.intros net_step_radio)

text \<open>C30: The application cannot see how the radio answered: whatever results the radio driver
  gives to the four commands, the two cores take exactly the same steps, so a command the
  radio refused is acknowledged like one it executed.\<close>

theorem radio_results_invisible:
  "link_step (e\<lparr>o_radio_init := ri, o_radio_enable := re, o_radio_disable := rd,
     o_radio_send := rs\<rparr>) = link_step e"
proof (intro ext iffI)
  let ?e = "e\<lparr>o_radio_init := ri, o_radio_enable := re, o_radio_disable := rd, o_radio_send := rs\<rparr>"
  fix s s'
  assume "link_step ?e s s'"
  from link_step_radio [OF this, where ri = "o_radio_init e" and re = "o_radio_enable e"
      and rd = "o_radio_disable e" and rs = "o_radio_send e"]
  show "link_step e s s'" by simp
qed (rule link_step_radio)

section \<open>Progress of the network core\<close>










end
