(* ===== verification/Threads.thy ===== *)
theory Threads
  imports App_System
begin

text \<open>
  Threads that preempt each other. A thread's program is a resumption: a tree of atomic
  actions on the shared state, each with the condition under which it can proceed. The
  kernel runs one action of some thread at a time; \<^verbatim>\<open>radio_mutex\<close> has an owner. This theory
  holds the programs, the step relation of a system of a main thread and any number of
  tasks, the lock discipline a program can keep, and what the discipline of all of them
  gives for every interleaving. \<open>Radio_Threads\<close> writes the application core in it.
\<close>

section \<open>Programs\<close>

text \<open>\<open>Act g m k\<close> waits until \<open>g\<close> holds, changes the state by \<open>m\<close> in one action, and goes on
  with \<open>k\<close>, which may depend on the state the action started in.\<close>

datatype ('s, 'r) prog =
    Done 'r
  | Act "'s \<Rightarrow> bool" "'s \<Rightarrow> 's" "'s \<Rightarrow> ('s, 'r) prog"

definition act :: "('s, 'x) state \<Rightarrow> ('x \<Rightarrow> ('s, 'r) prog) \<Rightarrow> ('s, 'r) prog" where
  "act m k = Act (\<lambda>_. True) (exec m) (\<lambda>s. k (result m s))"

definition lock_radio ::
    "('a world_scheme, 'r) prog \<Rightarrow> ('a world_scheme, 'r) prog" where
  "lock_radio p = Act radio_free (exec (tell (Mutex_lock Radio_mutex))) (\<lambda>_. p)"

definition unlock_radio ::
    "('a world_scheme, 'r) prog \<Rightarrow> ('a world_scheme, 'r) prog" where
  "unlock_radio p = act (tell (Mutex_unlock Radio_mutex)) (\<lambda>_. p)"

primrec call_then :: "('s, 'x) prog \<Rightarrow> ('x \<Rightarrow> ('s, 'r) prog) \<Rightarrow> ('s, 'r) prog" where
  "call_then (Done x) f = f x"
| "call_then (Act g m k) f = Act g m (\<lambda>s. call_then (k s) f)"

section \<open>A program that nobody preempts\<close>

primrec alone :: "('s, 'r) prog \<Rightarrow> ('s, 'r) state" where
  "alone (Done r) = ret r"
| "alone (Act g m k) = State (\<lambda>s. run_state (alone (k s)) (m s))"

primrec unblocked :: "('s, 'r) prog \<Rightarrow> 's \<Rightarrow> bool" where
  "unblocked (Done r) s = True"
| "unblocked (Act g m k) s = (g s \<and> unblocked (k s) (m s))"

named_theorems thread_simps \<open>a program on its own, along its structure\<close>

lemma alone_act [thread_simps]: "alone (act m k) = State_Monad.bind m (\<lambda>x. alone (k x))"
  by (rule state.expand) (simp add: act_def fun_eq_iff split: prod.splits)

lemma alone_lock [thread_simps]:
  "alone (lock_radio p) = State_Monad.bind (tell (Mutex_lock Radio_mutex)) (\<lambda>_. alone p)"
  by (rule state.expand) (simp add: lock_radio_def fun_eq_iff)

lemma alone_unlock [thread_simps]:
  "alone (unlock_radio p) = State_Monad.bind (tell (Mutex_unlock Radio_mutex)) (\<lambda>_. alone p)"
  by (simp add: unlock_radio_def thread_simps)

lemma alone_call_then [thread_simps]:
  "alone (call_then p f) = State_Monad.bind (alone p) (\<lambda>x. alone (f x))"
  by (induction p) (auto intro!: state.expand simp: fun_eq_iff)

lemma unblocked_act [thread_simps]: "unblocked (act m k) s = unblocked (k (result m s)) (exec m s)"
  by (simp add: act_def)

lemma unblocked_lock [thread_simps]:
  "unblocked (lock_radio p) s =
     (radio_free s \<and> unblocked p (s\<lparr>calls := calls s @ [Mutex_lock Radio_mutex]\<rparr>))"
  by (simp add: lock_radio_def)

lemma unblocked_unlock [thread_simps]:
  "unblocked (unlock_radio p) s = unblocked p (s\<lparr>calls := calls s @ [Mutex_unlock Radio_mutex]\<rparr>)"
  by (simp add: unlock_radio_def thread_simps)

lemma unblocked_call_then [thread_simps]:
  "unblocked (call_then p f) s =
     (unblocked p s \<and> unblocked (f (result (alone p) s)) (exec (alone p) s))"
  by (induction p arbitrary: s) auto

section \<open>The system\<close>

datatype thread = Main_thread | Task nat

text \<open>
  The main thread runs a segment of its program after the other; \<open>sys_main\<close> is what is left of
  the segment \<open>sys_seg\<close>. Tasks are started at any time and stay in the list when they are done.
\<close>

record ('s, 'p) system =
  sys_seg :: 'p
  sys_main :: "('s, 'p) prog"
  sys_tasks :: "('s, unit) prog list"
  sys_owner :: "thread option"
  sys_mem :: 's

fun owner_after :: "thread \<Rightarrow> thread option \<Rightarrow> call list \<Rightarrow> thread option" where
  "owner_after t ow [] = ow"
| "owner_after t ow (c # cs) = owner_after t
     (if c = Mutex_lock Radio_mutex then Some t
      else if c = Mutex_unlock Radio_mutex then None else ow) cs"

definition new_calls :: "'a world_scheme \<Rightarrow> 'a world_scheme \<Rightarrow> call list" where
  "new_calls s s' = drop (length (calls s)) (calls s')"

lemma new_calls_append [simp]: "calls s' = calls s @ cs \<Longrightarrow> new_calls s s' = cs"
  by (simp add: new_calls_def)

text \<open>The action \<open>m\<close> of the thread \<open>t\<close>.\<close>

definition sys_act ::
    "thread \<Rightarrow> ('a world_scheme \<Rightarrow> 'a world_scheme) \<Rightarrow> ('a world_scheme, 'p) system \<Rightarrow>
     ('a world_scheme, 'p) system" where
  "sys_act t m c = c\<lparr>sys_mem := m (sys_mem c),
     sys_owner := owner_after t (sys_owner c) (new_calls (sys_mem c) (m (sys_mem c)))\<rparr>"

inductive sys_step ::
    "('p \<Rightarrow> ('a world_scheme, 'p) prog) \<Rightarrow> ('h \<Rightarrow> ('a world_scheme, unit) prog) \<Rightarrow> ('h \<Rightarrow> bool) \<Rightarrow>
     thread \<Rightarrow> ('a world_scheme, 'p) system \<Rightarrow> ('a world_scheme, 'p) system \<Rightarrow> bool"
  for mp hp P where
  main_act: "sys_main c = Act g m k \<Longrightarrow> g (sys_mem c) \<Longrightarrow>
    sys_step mp hp P Main_thread c ((sys_act Main_thread m c)\<lparr>sys_main := k (sys_mem c)\<rparr>)"
| main_segment: "sys_main c = Done pc \<Longrightarrow>
    sys_step mp hp P Main_thread c (c\<lparr>sys_seg := pc, sys_main := mp pc\<rparr>)"
| task_start: "P h \<Longrightarrow> i = length (sys_tasks c) \<Longrightarrow>
    sys_step mp hp P (Task i) c (c\<lparr>sys_tasks := sys_tasks c @ [hp h]\<rparr>)"
| task_act: "i < length (sys_tasks c) \<Longrightarrow> sys_tasks c ! i = Act g m k \<Longrightarrow> g (sys_mem c) \<Longrightarrow>
    sys_step mp hp P (Task i) c
      ((sys_act (Task i) m c)\<lparr>sys_tasks := (sys_tasks c)[i := k (sys_mem c)]\<rparr>)"

inductive sys_reach ::
    "('p \<Rightarrow> ('a world_scheme, 'p) prog) \<Rightarrow> ('h \<Rightarrow> ('a world_scheme, unit) prog) \<Rightarrow> ('h \<Rightarrow> bool) \<Rightarrow>
     'p \<Rightarrow> 'a world_scheme \<Rightarrow> ('a world_scheme, 'p) system \<Rightarrow> bool"
  for mp hp P pc s where
  init: "sys_reach mp hp P pc s
    \<lparr>sys_seg = pc, sys_main = mp pc, sys_tasks = [], sys_owner = None, sys_mem = s\<rparr>"
| step: "sys_reach mp hp P pc s c \<Longrightarrow> sys_step mp hp P t c c' \<Longrightarrow> sys_reach mp hp P pc s c'"

section \<open>The lock discipline\<close>

text \<open>
  What an action may do to the mutex, with \<open>cs\<close> the calls it makes and \<open>b\<close>, \<open>b'\<close> whether
  its thread has the mutex before and after: it takes the mutex, it gives it back, or
  leaves it alone, and then makes a call that needs it, one of \<open>A\<close>, only while having it.
\<close>

definition act_ok ::
    "(call \<Rightarrow> bool) \<Rightarrow> bool \<Rightarrow> call list \<Rightarrow> bool \<Rightarrow> 'a world_scheme \<Rightarrow> bool" where
  "act_ok A b cs b' s \<longleftrightarrow>
     (cs = [Mutex_lock Radio_mutex] \<and> \<not> b \<and> b' \<and> radio_free s) \<or>
     (cs = [Mutex_unlock Radio_mutex] \<and> b \<and> \<not> b') \<or>
     (list_all (\<lambda>c. \<not> is_mutex_op c \<and> (A c \<longrightarrow> b)) cs \<and> b' = b)"

text \<open>\<open>Q r b\<close> relates the result of the program to whether it ends with the mutex; \<open>W\<close> is
  whether the program may wait for anything while it has it.\<close>

primrec disciplined ::
    "bool \<Rightarrow> (call \<Rightarrow> bool) \<Rightarrow> ('r \<Rightarrow> bool \<Rightarrow> bool) \<Rightarrow> ('a world_scheme, 'r) prog \<Rightarrow> bool \<Rightarrow> bool" where
  "disciplined W A Q (Done r) b = Q r b"
| "disciplined W A Q (Act g m k) b =
     ((\<not> b \<or> W \<or> (\<forall>s. g s)) \<and>
      (\<forall>s. g s \<longrightarrow> (\<exists>cs b'. calls (m s) = calls s @ cs \<and> act_ok A b cs b' s \<and>
         disciplined W A Q (k s) b')))"

named_theorems discipline_intros \<open>rules that prove \<open>disciplined\<close> along the program\<close>

lemma disciplined_Done [discipline_intros]: "Q r b \<Longrightarrow> disciplined W A Q (Done r) b"
  by simp

lemma disciplined_if [discipline_intros]:
  "(x \<Longrightarrow> disciplined W A Q p b) \<Longrightarrow> (\<not> x \<Longrightarrow> disciplined W A Q q b) \<Longrightarrow>
   disciplined W A Q (if x then p else q) b"
  by simp

lemma disciplined_case_prod [discipline_intros]:
  "(\<And>x y. disciplined W A Q (f x y) b) \<Longrightarrow> disciplined W A Q (case v of (x, y) \<Rightarrow> f x y) b"
  by (cases v) simp

lemma disciplined_case_option [discipline_intros]:
  "disciplined W A Q p b \<Longrightarrow> (\<And>x. disciplined W A Q (f x) b) \<Longrightarrow>
   disciplined W A Q (case v of None \<Rightarrow> p | Some x \<Rightarrow> f x) b"
  by (cases v) simp_all

lemma disciplined_segment:
  assumes "\<And>s. g s \<Longrightarrow> \<exists>cs. calls (m s) = calls s @ cs \<and>
      list_all (\<lambda>c. \<not> is_mutex_op c \<and> (A c \<longrightarrow> b)) cs"
    and "\<And>s. g s \<Longrightarrow> disciplined W A Q (k s) b"
    and "\<not> b \<or> W \<or> (\<forall>s. g s)"
  shows "disciplined W A Q (Act g m k) b"
  using assms by (fastforce simp: act_ok_def)

lemma disciplined_act:
  assumes "emits (\<lambda>c. \<not> is_mutex_op c \<and> (A c \<longrightarrow> b)) m"
    and "\<And>x. disciplined W A Q (k x) b"
  shows "disciplined W A Q (act m k) b"
  unfolding act_def using assms(2)
  by (intro disciplined_segment) (use assms(1) in \<open>auto simp: emits_def\<close>)

lemma disciplined_lock [discipline_intros]:
  "\<not> b \<Longrightarrow> disciplined W A Q p True \<Longrightarrow> disciplined W A Q (lock_radio p) b"
  by (auto simp: lock_radio_def act_ok_def)

lemma disciplined_unlock [discipline_intros]:
  "b \<Longrightarrow> disciplined W A Q p False \<Longrightarrow> disciplined W A Q (unlock_radio p) b"
  by (auto simp: unlock_radio_def act_def act_ok_def)

lemma disciplined_call_then:
  assumes "disciplined W A R p b" and "\<And>x b'. R x b' \<Longrightarrow> disciplined W A Q (f x) b'"
  shows "disciplined W A Q (call_then p f) b"
  using assms by (induction p arbitrary: b) fastforce+

section \<open>Every interleaving of disciplined threads\<close>

lemma owner_after_none:
  "list_all (\<lambda>c. \<not> is_mutex_op c) cs \<Longrightarrow> owner_after t ow cs = ow"
  by (induction cs arbitrary: ow) auto

text \<open>What one action does to the owner, for its own thread and for all others.\<close>

lemma act_ok_owner:
  assumes "act_ok A (ow = Some t) cs b' s"
    and "lock_depth (calls s) = (if ow = None then 0 else 1)"
  defines "ow' \<equiv> owner_after t ow cs"
  shows "(ow' = Some t) = b'" and "u \<noteq> t \<Longrightarrow> (ow' = Some u) = (ow = Some u)"
    and "lock_depth (calls s @ cs) = (if ow' = None then 0 else 1)"
proof -
  consider (lock) "cs = [Mutex_lock Radio_mutex]" "ow = None" "b'"
    | (unlock) "cs = [Mutex_unlock Radio_mutex]" "ow = Some t" "\<not> b'"
    | (none) "list_all (\<lambda>c. \<not> is_mutex_op c) cs" "b' = (ow = Some t)"
    using assms(1,2) by (auto simp: act_ok_def radio_free_def list_all_iff split: if_splits)
  then have "(ow' = Some t) = b' \<and> (u \<noteq> t \<longrightarrow> (ow' = Some u) = (ow = Some u)) \<and>
      lock_depth (calls s @ cs) = (if ow' = None then 0 else 1)"
  proof cases
    case none
    with lock_depth_none [OF none(1)] assms(2) show ?thesis
      by (simp add: ow'_def owner_after_none)
  qed (use assms(2) in \<open>auto simp: ow'_def\<close>)
  then show "(ow' = Some t) = b'" and "u \<noteq> t \<Longrightarrow> (ow' = Some u) = (ow = Some u)"
    and "lock_depth (calls s @ cs) = (if ow' = None then 0 else 1)" by blast+
qed

text \<open>
  The interface of a program to this theory: which segments main has and which programs run
  beside it, with what they promise about the mutex. \<open>exempt\<close> are segments that run before
  the mutex is in use; \<open>holds\<close> is where main has it at the start of a segment.
\<close>

locale disciplined_system =
  fixes mp :: "'p \<Rightarrow> ('a world_scheme, 'p) prog"
    and hp :: "'h \<Rightarrow> ('a world_scheme, unit) prog"
    and P :: "'h \<Rightarrow> bool"
    and A :: "call \<Rightarrow> bool"
    and exempt holds :: "'p \<Rightarrow> bool"
  assumes main_disciplined:
      "disciplined True (\<lambda>c. A c \<and> \<not> exempt pc) (\<lambda>pc' b. b = holds pc') (mp pc) (holds pc)"
    and task_disciplined: "P h \<Longrightarrow> disciplined False A (\<lambda>_ b. \<not> b) (hp h) False"
    and needs_no_lock: "A c \<Longrightarrow> \<not> is_mutex_op c"
begin

definition sys_inv :: "('a world_scheme, 'p) system \<Rightarrow> bool" where
  "sys_inv c \<longleftrightarrow>
     lock_depth (calls (sys_mem c)) = (if sys_owner c = None then 0 else 1) \<and>
     (\<forall>i. sys_owner c = Some (Task i) \<longrightarrow> i < length (sys_tasks c)) \<and>
     disciplined True (\<lambda>x. A x \<and> \<not> exempt (sys_seg c)) (\<lambda>pc b. b = holds pc) (sys_main c)
       (sys_owner c = Some Main_thread) \<and>
     (\<forall>i < length (sys_tasks c).
        disciplined False A (\<lambda>_ b. \<not> b) (sys_tasks c ! i) (sys_owner c = Some (Task i)))"

lemma owner_disciplined:
  assumes "sys_inv c" and "sys_owner c = Some (Task i)"
  shows "i < length (sys_tasks c)" and "disciplined False A (\<lambda>_ b. \<not> b) (sys_tasks c ! i) True"
proof -
  show i: "i < length (sys_tasks c)" using assms by (simp add: sys_inv_def)
  have "disciplined False A (\<lambda>_ b. \<not> b) (sys_tasks c ! i) (sys_owner c = Some (Task i))"
    using assms(1) i unfolding sys_inv_def by blast
  with assms(2) show "disciplined False A (\<lambda>_ b. \<not> b) (sys_tasks c ! i) True" by simp
qed

lemma owner_not_done:
  assumes "sys_inv c" and "sys_owner c = Some (Task i)"
  shows "sys_tasks c ! i \<noteq> Done r"
  using owner_disciplined(2) [OF assms] by auto

lemma step_inv:
  assumes "sys_inv c" and "sys_step mp hp P t c c'"
  shows "sys_inv c'"
  using assms(2)
proof (cases rule: sys_step.cases)
  case (main_act g m k)
  obtain cs b' where 1: "calls (m (sys_mem c)) = calls (sys_mem c) @ cs"
      "act_ok (\<lambda>x. A x \<and> \<not> exempt (sys_seg c)) (sys_owner c = Some Main_thread) cs b' (sys_mem c)"
      "disciplined True (\<lambda>x. A x \<and> \<not> exempt (sys_seg c)) (\<lambda>pc b. b = holds pc) (k (sys_mem c)) b'"
    using assms(1) main_act(3,4) unfolding sys_inv_def by fastforce
  note ow = act_ok_owner [OF 1(2)]
  from assms(1) main_act(1,2) 1 ow show ?thesis by (simp add: sys_inv_def sys_act_def)
next
  case (main_segment pc)
  with assms(1) main_disciplined [of pc] show ?thesis by (simp add: sys_inv_def)
next
  case (task_start h i)
  then have "sys_owner c \<noteq> Some (Task i)" using assms(1) by (auto simp: sys_inv_def)
  with task_start assms(1) task_disciplined [of h] show ?thesis
    by (auto simp: sys_inv_def nth_append less_Suc_eq)
next
  case (task_act i g m k)
  obtain cs b' where 1: "calls (m (sys_mem c)) = calls (sys_mem c) @ cs"
      "act_ok A (sys_owner c = Some (Task i)) cs b' (sys_mem c)"
      "disciplined False A (\<lambda>_ b. \<not> b) (k (sys_mem c)) b'"
    using assms(1) task_act(3,4,5) unfolding sys_inv_def by fastforce
  have depth: "lock_depth (calls (sys_mem c)) = (if sys_owner c = None then 0 else 1)"
    using assms(1) by (simp add: sys_inv_def)
  note ow = act_ok_owner [OF 1(2) depth]
  let ?ow = "owner_after (Task i) (sys_owner c) cs"
  have "j < length (sys_tasks c)" if "?ow = Some (Task j)" for j
    using that ow(2) [of "Task j"] task_act(3) assms(1)
    by (cases "j = i") (auto simp: sys_inv_def)
  moreover have "disciplined False A (\<lambda>_ b. \<not> b) ((sys_tasks c)[i := k (sys_mem c)] ! j) (?ow = Some (Task j))"
    if "j < length (sys_tasks c)" for j
    using that ow(1) ow(2) [of "Task j"] 1(3) assms(1)
    by (cases "j = i") (auto simp: sys_inv_def)
  moreover have "disciplined True (\<lambda>x. A x \<and> \<not> exempt (sys_seg c)) (\<lambda>pc b. b = holds pc) (sys_main c)
      (?ow = Some Main_thread)"
    using ow(2) [of Main_thread] assms(1) by (simp add: sys_inv_def)
  ultimately show ?thesis
    using task_act(2) 1(1) ow(3) by (simp add: sys_inv_def sys_act_def)
qed

lemma step_act_ok:
  assumes "sys_inv c" and "sys_step mp hp P t c c'"
  obtains (silent) "sys_mem c' = sys_mem c" "sys_owner c' = sys_owner c"
    | (acts) cs b' where "calls (sys_mem c') = calls (sys_mem c) @ cs"
        "sys_owner c' = owner_after t (sys_owner c) cs"
        "act_ok (\<lambda>x. A x \<and> \<not> (t = Main_thread \<and> exempt (sys_seg c)))
           (sys_owner c = Some t) cs b' (sys_mem c)"
  using assms(2)
proof (cases rule: sys_step.cases)
  case (main_act g m k)
  obtain cs b' where "calls (m (sys_mem c)) = calls (sys_mem c) @ cs"
      "act_ok (\<lambda>x. A x \<and> \<not> exempt (sys_seg c)) (sys_owner c = Some Main_thread) cs b' (sys_mem c)"
    using assms(1) main_act(3,4) unfolding sys_inv_def by fastforce
  with main_act show ?thesis by (intro acts) (simp_all add: sys_act_def)
next
  case (task_act i g m k)
  obtain cs b' where "calls (m (sys_mem c)) = calls (sys_mem c) @ cs"
      "act_ok A (sys_owner c = Some (Task i)) cs b' (sys_mem c)"
    using assms(1) task_act(3,4,5) unfolding sys_inv_def by fastforce
  with task_act show ?thesis by (intro acts) (simp_all add: sys_act_def)
qed (simp_all add: silent)

text \<open>A call that needs the mutex is made by its owner, outside the exempt segments.\<close>

lemma caller_is_owner:
  assumes "sys_inv c" and "sys_step mp hp P t c c'"
    and "x \<in> set (new_calls (sys_mem c) (sys_mem c'))" and "A x"
    and "t = Main_thread \<Longrightarrow> \<not> exempt (sys_seg c)"
  shows "sys_owner c = Some t" and "lock_depth (calls (sys_mem c)) = 1"
proof -
  have other: "\<not> A (Mutex_lock Radio_mutex)" "\<not> A (Mutex_unlock Radio_mutex)"
    using needs_no_lock by fastforce+
  from assms(1,2) show owner: "sys_owner c = Some t"
  proof (cases rule: step_act_ok)
    case silent
    with assms(3) show ?thesis by (simp add: new_calls_def)
  next
    case (acts cs b')
    with assms(3-5) other show ?thesis by (auto simp: act_ok_def list_all_iff)
  qed
  then show "lock_depth (calls (sys_mem c)) = 1"
    using assms(1) by (simp add: sys_inv_def)
qed

text \<open>No thread changes whether another one has the mutex.\<close>

lemma step_owner:
  assumes "sys_inv c" and "sys_step mp hp P t c c'" and "u \<noteq> t"
  shows "(sys_owner c' = Some u) = (sys_owner c = Some u)"
  using assms(1,2)
proof (cases rule: step_act_ok)
  case (acts cs b')
  with act_ok_owner(2) [OF acts(3)] assms(1,3) show ?thesis by (simp add: sys_inv_def)
qed simp

lemma steps_owner:
  assumes "(sys_step mp hp P t)\<^sup>*\<^sup>* c c'" and "sys_inv c" and "u \<noteq> t"
  shows "sys_inv c' \<and> (sys_owner c' = Some u) = (sys_owner c = Some u)"
  using assms(1)
proof (induction rule: rtranclp_induct)
  case base
  with assms(2) show ?case by simp
next
  case (step c1 c2)
  with step_inv [of c1 t c2] step_owner [of c1 t c2 u] assms(3) show ?case by blast
qed

text \<open>A task that has the mutex can finish its section without any other thread.\<close>

lemma holder_can_finish:
  assumes "sys_inv c" and "sys_owner c = Some (Task i)"
  shows "\<exists>c'. (sys_step mp hp P (Task i))\<^sup>*\<^sup>* c c' \<and> sys_owner c' = None"
  using assms
proof (induction "sys_tasks c ! i" arbitrary: c)
  case (Done r)
  with owner_not_done [of c i r] show ?case by simp
next
  case (Act g m k)
  note i = owner_disciplined(1) [OF Act.prems]
  have "g (sys_mem c)"
    using owner_disciplined(2) [OF Act.prems] by (simp flip: Act.hyps(2))
  let ?c = "(sys_act (Task i) m c)\<lparr>sys_tasks := (sys_tasks c)[i := k (sys_mem c)]\<rparr>"
  have 1: "sys_step mp hp P (Task i) c ?c"
    by (rule sys_step.task_act [OF i Act.hyps(2) [symmetric] \<open>g (sys_mem c)\<close>])
  have inv: "sys_inv ?c" by (rule step_inv [OF Act.prems(1) 1])
  show ?case
  proof (cases "sys_owner ?c = Some (Task i)")
    case True
    have "sys_tasks ?c ! i \<in> range k" using i by simp
    from Act.hyps(1) [OF this inv True] 1 show ?thesis
      by (meson converse_rtranclp_into_rtranclp)
  next
    case False
    then have "sys_owner ?c = None"
      using step_owner [OF Act.prems(1) 1] Act.prems(2) by (cases "sys_owner ?c") auto
    with 1 show ?thesis by blast
  qed
qed

lemma reach_inv:
  assumes "sys_reach mp hp P pc s c" and "lock_depth (calls s) = 0" and "\<not> holds pc"
  shows "sys_inv c"
  using assms(1)
proof (induction rule: sys_reach.induct)
  case init
  with assms(2,3) main_disciplined [of pc] show ?case by (simp add: sys_inv_def)
next
  case (step c t c')
  then show ?case using step_inv by blast
qed

lemma between_segments:
  "sys_inv c \<Longrightarrow> sys_main c = Done pc \<Longrightarrow> (sys_owner c = Some Main_thread) = holds pc"
  by (simp add: sys_inv_def)

end

section \<open>A thread that nobody preempts for a while\<close>

abbreviation sys_steps ::
    "('p \<Rightarrow> ('a world_scheme, 'p) prog) \<Rightarrow> ('h \<Rightarrow> ('a world_scheme, unit) prog) \<Rightarrow> ('h \<Rightarrow> bool) \<Rightarrow>
     ('a world_scheme, 'p) system \<Rightarrow> ('a world_scheme, 'p) system \<Rightarrow> bool" where
  "sys_steps mp hp P \<equiv> (\<lambda>c c'. \<exists>t. sys_step mp hp P t c c')\<^sup>*\<^sup>*"

lemma steps_reach: "sys_steps mp hp P c c' \<Longrightarrow> sys_reach mp hp P pc s c \<Longrightarrow> sys_reach mp hp P pc s c'"
  by (induction rule: rtranclp_induct) (auto intro: sys_reach.step)

lemma thread_steps: "(sys_step mp hp P t)\<^sup>*\<^sup>* c c' \<Longrightarrow> sys_steps mp hp P c c'"
  by (erule rtranclp_mono [THEN predicate2D, rotated]) auto

lemma call_then_Done [simp]: "call_then p Done = p"
  by (induction p) auto

text \<open>The calling program goes on when the called one has ended.\<close>

lemma main_prefix:
  "sys_main c = call_then p f \<Longrightarrow> unblocked p (sys_mem c) \<Longrightarrow>
   \<exists>ow. (sys_step mp hp P Main_thread)\<^sup>*\<^sup>* c (c\<lparr>sys_main := f (result (alone p) (sys_mem c)),
     sys_mem := exec (alone p) (sys_mem c), sys_owner := ow\<rparr>)"
proof (induction p arbitrary: c)
  case (Done r)
  then have "c = c\<lparr>sys_main := f r, sys_mem := sys_mem c, sys_owner := sys_owner c\<rparr>" by simp
  then show ?case by (intro exI [of _ "sys_owner c"]) simp
next
  case (Act g m k)
  let ?s = "sys_mem c"
  let ?c = "(sys_act Main_thread m c)\<lparr>sys_main := call_then (k ?s) f\<rparr>"
  let ?final = "\<lambda>ow. ?c\<lparr>sys_main := f (result (alone (k ?s)) (m ?s)),
      sys_mem := exec (alone (k ?s)) (m ?s), sys_owner := ow\<rparr>"
  have 1: "sys_step mp hp P Main_thread c ?c"
    using Act.prems sys_step.main_act [of c g m "\<lambda>s. call_then (k s) f"] by simp
  obtain ow where "(sys_step mp hp P Main_thread)\<^sup>*\<^sup>* ?c (?final ow)"
    using Act.IH [OF rangeI, where c = ?c] Act.prems(2) by (auto simp: sys_act_def)
  with 1 have "(sys_step mp hp P Main_thread)\<^sup>*\<^sup>* c (?final ow)"
    by (rule converse_rtranclp_into_rtranclp)
  then show ?case by (intro exI [of _ ow]) (simp add: sys_act_def)
qed

lemma task_prefix:
  "i < length (sys_tasks c) \<Longrightarrow> sys_tasks c ! i = call_then p f \<Longrightarrow> unblocked p (sys_mem c) \<Longrightarrow>
   \<exists>ow. (sys_step mp hp P (Task i))\<^sup>*\<^sup>* c
     (c\<lparr>sys_tasks := (sys_tasks c)[i := f (result (alone p) (sys_mem c))],
        sys_mem := exec (alone p) (sys_mem c), sys_owner := ow\<rparr>)"
proof (induction p arbitrary: c)
  case (Done r)
  then have "(sys_tasks c)[i := f r] = sys_tasks c" by (metis call_then.simps(1) list_update_id)
  then show ?case by (intro exI [of _ "sys_owner c"]) simp
next
  case (Act g m k)
  let ?s = "sys_mem c"
  let ?c = "(sys_act (Task i) m c)\<lparr>sys_tasks := (sys_tasks c)[i := call_then (k ?s) f]\<rparr>"
  let ?final = "\<lambda>ow. ?c\<lparr>sys_tasks := (sys_tasks ?c)[i := f (result (alone (k ?s)) (m ?s))],
      sys_mem := exec (alone (k ?s)) (m ?s), sys_owner := ow\<rparr>"
  have 1: "sys_step mp hp P (Task i) c ?c"
    using Act.prems sys_step.task_act [of i c g m "\<lambda>s. call_then (k s) f"] by simp
  obtain ow where "(sys_step mp hp P (Task i))\<^sup>*\<^sup>* ?c (?final ow)"
    using Act.IH [OF rangeI, where c = ?c] Act.prems by (auto simp: sys_act_def)
  with 1 have "(sys_step mp hp P (Task i))\<^sup>*\<^sup>* c (?final ow)"
    by (rule converse_rtranclp_into_rtranclp)
  then show ?case by (intro exI [of _ ow]) (simp add: sys_act_def)
qed

end
