(* ===== verification/Radio_Threads.thy ===== *)
theory Radio_Threads
  imports Threads App_Invariants
begin

text \<open>
  The application core as threads: the segments of \<^verbatim>\<open>main\<close> and the handlers that use the radio,
  with every external call, and every change of shared memory between two calls, an action
  of its own. The handlers that neither touch the radio nor wait run in one action. Each
  program, run alone, is the operation of the same name.
\<close>

section \<open>Waiting\<close>

definition wait_sem :: "sem \<Rightarrow> ('a world_scheme, 'r) prog \<Rightarrow> ('a world_scheme, 'r) prog" where
  "wait_sem x p = Act (sem_avail x) (exec (tell (Sem_take x Forever))) (\<lambda>_. p)"

text \<open>A loop that has not ended within its fuel: the thread does not go on.\<close>

definition blocked :: "('s, 'r) prog \<Rightarrow> ('s, 'r) prog" where
  "blocked p = Act (\<lambda>_. False) id (\<lambda>_. p)"

lemma alone_wait [thread_simps]:
  "alone (wait_sem x p) = State_Monad.bind (tell (Sem_take x Forever)) (\<lambda>_. alone p)"
  by (rule state.expand) (simp add: wait_sem_def fun_eq_iff)

lemma unblocked_wait [thread_simps]:
  "unblocked (wait_sem x p) s =
     (sem_avail x s \<and> unblocked p (s\<lparr>calls := calls s @ [Sem_take x Forever]\<rparr>))"
  by (simp add: wait_sem_def)

lemma disciplined_wait [discipline_intros]:
  "W \<or> \<not> b \<Longrightarrow> (A (Sem_take x Forever) \<Longrightarrow> b) \<Longrightarrow> disciplined W A Q p b \<Longrightarrow> disciplined W A Q (wait_sem x p) b"
  unfolding wait_sem_def by (rule disciplined_segment) auto

lemma disciplined_blocked [discipline_intros]: "W \<or> \<not> b \<Longrightarrow> disciplined W A Q (blocked p) b"
  by (auto simp: blocked_def)

section \<open>The radio operations\<close>

definition ble_adv_start_thread :: "env \<Rightarrow> ('a ble_state_scheme, int) prog" where
  "ble_adv_start_thread e =
     act (tell (Timer_start Ble_timer (cfg_adv_frequency e) 0)) (\<lambda>_.
     act (ask (o_advertise_get e) (Ble_advertise_get HUBBLE_BLE_BUFFER_LEN)) (\<lambda>(err, out).
     if err \<noteq> 0 then Done err
     else
       act (modify (\<lambda>s. s\<lparr>g_app_ad := (g_app_ad s)
         [0 := \<lparr>ad_kind = DATA_UUID16_ALL, ad_len = 2, ad_bytes = le_bytes 2 (HUBBLE_BLE_UUID e)\<rparr>,
          1 := \<lparr>ad_kind = DATA_SVC_DATA16, ad_len = length out, ad_bytes = out\<rparr>]\<rparr>)) (\<lambda>_.
       act (gets g_app_ad) (\<lambda>ad.
       act (ask (o_adv_start e) (Adv_start [USE_NRPA] SLOW_INT_MIN SLOW_INT_MAX ad [])) Done))))"

definition ble_adv_stop_thread :: "('a world_scheme, unit) prog" where
  "ble_adv_stop_thread = act (tell Adv_stop) (\<lambda>_. act (tell (Timer_stop Ble_timer)) Done)"

definition ble_init_thread :: "env \<Rightarrow> ('a ble_state_scheme, int) prog" where
  "ble_init_thread e =
     act (gets g_app_ad) (\<lambda>ad.
     act (ask (o_adv_start e)
       (Adv_start [USE_NRPA, OPT_CONN] FAST_INT_MIN_2 FAST_INT_MAX_2 (take 2 ad) (ble_sd e))) Done)"

definition ble_work_thread :: "env \<Rightarrow> ('a ble_state_scheme, unit) prog" where
  "ble_work_thread e =
     call_then ble_adv_stop_thread (\<lambda>_. call_then (ble_adv_start_thread e) (\<lambda>_. Done ()))"

definition ble_enable_thread :: "env \<Rightarrow> bool \<Rightarrow> ('a ble_state_scheme, unit) prog" where
  "ble_enable_thread e user_requested =
     lock_radio (
     act (gets g_ble_off_by_user) (\<lambda>off.
     if \<not> user_requested \<and> off then unlock_radio (Done ())
     else
       act (if user_requested then modify (\<lambda>s. s\<lparr>g_ble_off_by_user := False\<rparr>) else ret ()) (\<lambda>_.
       act (ask (o_bt_enable e) Bt_enable) (\<lambda>err.
       if err \<noteq> 0 \<and> err \<noteq> - EALREADY e then unlock_radio (Done ())
       else
         act (gets g_utc_time) (\<lambda>utc_time.
         call_then (if utc_time = 0 then ble_init_thread e else ble_adv_start_thread e) (\<lambda>_.
         unlock_radio (Done ())))))))"

definition ble_disable_thread :: "bool \<Rightarrow> ('a ble_state_scheme, unit) prog" where
  "ble_disable_thread user_requested =
     lock_radio (
     act (if user_requested then modify (\<lambda>s. s\<lparr>g_ble_off_by_user := True\<rparr>) else ret ()) (\<lambda>_.
     call_then ble_adv_stop_thread (\<lambda>_.
     act (tell Bt_disable) (\<lambda>_.
     unlock_radio (Done ())))))"

definition button_worker_thread :: "env \<Rightarrow> ('a ble_state_scheme, unit) prog" where
  "button_worker_thread e =
     act (ask (o_bt_is_ready e) Bt_is_ready) (\<lambda>ready.
     if \<not> ready then ble_enable_thread e True else ble_disable_thread True)"

definition cmd_ble_thread :: "env \<Rightarrow> string list \<Rightarrow> ('a ble_state_scheme, unit) prog" where
  "cmd_ble_thread e argv =
     (if length argv = 2 \<and> argv ! 1 = ''enable'' then ble_enable_thread e True
      else if length argv = 2 \<and> argv ! 1 = ''disable'' then ble_disable_thread True
      else act (cmd_ble e argv) (\<lambda>_. Done ()))"

fun handler_thread :: "env \<Rightarrow> handler \<Rightarrow> ('a ble_state_scheme, unit) prog" where
  "handler_thread e (Shell_line argv) =
     (if argv \<noteq> [] \<and> hd argv = ''bluetooth'' then cmd_ble_thread e argv
      else act (handler_op e (Shell_line argv)) Done)"
| "handler_thread e Button_worker = button_worker_thread e"
| "handler_thread e Ble_worker = ble_work_thread e"
| "handler_thread e Provisioning_worker = call_then (ble_init_thread e) (\<lambda>_. Done ())"
| "handler_thread e h = act (handler_op e h) Done"

section \<open>The satellite phase\<close>

definition ipc_send_thread :: "env \<Rightarrow> ipc_msg \<Rightarrow> ('a world_scheme, int) prog" where
  "ipc_send_thread e m =
     act (ask (o_ipc_send e) (Ipc_send m)) (\<lambda>r.
     if r < 0 then Done r
     else act (ask (o_sem_take e) (Sem_take Sat_sem (Seconds IPC_TIMEOUT_S))) Done)"

definition sat_endpoint_open_thread :: "env \<Rightarrow> ('a world_scheme, int option) prog" where
  "sat_endpoint_open_thread e =
     act (cpunet_stack_mark 0) (\<lambda>_.
     act (tell (Cpunet_enable True)) (\<lambda>_.
     act (ask (o_ipc_open e) Ipc_open) (\<lambda>err.
     if err < 0 \<and> err \<noteq> - EALREADY e then Done (Some err)
     else
       act (ask (o_ipc_register e) Ipc_register) (\<lambda>err.
       Done (if err < 0 then Some err else None)))))"

definition sat_disable_thread :: "env \<Rightarrow> ('a world_scheme, int) prog" where
  "sat_disable_thread e =
     act (ask (o_ipc_deregister e) Ipc_deregister) (\<lambda>err.
     if err \<noteq> 0 then Done err
     else
       act (ask (o_ipc_close e) Ipc_close) (\<lambda>err.
       if err \<noteq> 0 then Done err
       else act (tell (Cpunet_enable False)) (\<lambda>_. Done 0)))"

fun send_loop_thread ::
    "env \<Rightarrow> nat \<Rightarrow> bytes \<Rightarrow> int \<Rightarrow> int \<Rightarrow> ('a sat_state_scheme, int option) prog" where
  "send_loop_thread e 0 pkt now end_ms = Done None"
| "send_loop_thread e (Suc fuel) pkt now end_ms =
     (if now \<le> end_ms then
        act (ask (o_packet_send e) (Packet_send pkt RELIABILITY_NONE)) (\<lambda>r.
        if r \<noteq> 0 then Done (Some r)
        else
          act (gets g_retransmission_frequency_s) (\<lambda>freq.
          act (tell (Sleep (unat freq))) (\<lambda>_.
          act (ask (o_uptime e) Uptime_get) (\<lambda>now.
          send_loop_thread e fuel pkt now end_ms))))
      else Done (Some 0))"

definition transmit_packet_thread ::
    "env \<Rightarrow> nat \<Rightarrow> bytes \<Rightarrow> ('a sat_state_scheme, int option) prog" where
  "transmit_packet_thread e fuel pkt =
     act (modify (\<lambda>s. s\<lparr>g_transmitting := True\<rparr>)) (\<lambda>_.
     act (led_blink_start e) (\<lambda>_.
     call_then
       (if \<not> cfg_pass_prediction e then
          act (ask (o_uptime e) Uptime_get) (\<lambda>now.
          act (ask (o_uptime e) Uptime_get) (\<lambda>start.
          act sat_transmission_time_get (\<lambda>time.
          send_loop_thread e fuel pkt now (start + time * 1000))))
        else act (ask (o_packet_send e) (Packet_send pkt RELIABILITY_NORMAL)) (\<lambda>r. Done (Some r)))
       (\<lambda>sent. case sent of
          None \<Rightarrow> Done None
        | Some r \<Rightarrow>
            if r \<noteq> 0 then Done (Some r)
            else
              act (led_blink_stop e) (\<lambda>_.
              act (modify (\<lambda>s. s\<lparr>g_transmitting := False\<rparr>)) (\<lambda>_. Done (Some 0))))))"

definition sat_transmit_thread :: "env \<Rightarrow> nat \<Rightarrow> ('a sat_state_scheme, int option) prog" where
  "sat_transmit_thread e fuel =
     act (sat_payload_build e) (\<lambda>(pkt_buffer, pkt_len).
     act (ask (o_packet_get e) (Packet_get pkt_buffer (nearest_packet_len_get pkt_len))) (\<lambda>(r, pkt).
     if r \<noteq> 0 then Done (Some r) else transmit_packet_thread e fuel pkt))"

section \<open>Main\<close>

fun main_thread :: "env \<Rightarrow> nat \<Rightarrow> main_pc \<Rightarrow> ('a ble_state_scheme, main_pc) prog" where
  "main_thread e fuel Boot = act (main_boot e) Done"
| "main_thread e fuel Wait_init = wait_sem Init_sem (Done Wait_key)"
| "main_thread e fuel Wait_key = wait_sem Key_sem (Done Start)"
| "main_thread e fuel Start = act (main_start e) Done"
| "main_thread e fuel Schedule =
     act (sat_schedule_next_transmission e fuel) (\<lambda>r.
     case r of None \<Rightarrow> blocked (Done Schedule) | Some _ \<Rightarrow> Done Enable_ble)"
| "main_thread e fuel Enable_ble = call_then (ble_enable_thread e False) (\<lambda>_. Done Wait_timer)"
| "main_thread e fuel Wait_timer = wait_sem Timer_sem (Done Disable_ble)"
| "main_thread e fuel Disable_ble = call_then (ble_disable_thread False) (\<lambda>_. Done Lock_radio)"
| "main_thread e fuel Lock_radio = lock_radio (Done Start_sat)"
| "main_thread e fuel Start_sat =
     call_then (sat_endpoint_open_thread e) (\<lambda>r.
     Done (if r = None then Wait_bound else Stop_sat))"
| "main_thread e fuel Wait_bound =
     wait_sem Bound_sem (call_then (ipc_send_thread e (base_msg SAT_CMD_INIT)) (\<lambda>err.
     Done (if err < 0 then Stop_sat else Transmit)))"
| "main_thread e fuel Transmit =
     call_then (sat_transmit_thread e fuel) (\<lambda>r.
     case r of None \<Rightarrow> blocked (Done Transmit) | Some _ \<Rightarrow> Done Stop_sat)"
| "main_thread e fuel Stop_sat = call_then (sat_disable_thread e) (\<lambda>_. Done Unlock_radio)"
| "main_thread e fuel Unlock_radio = unlock_radio (Done Restore_mark)"
| "main_thread e fuel Restore_mark = act (cpunet_stack_mark 1) (\<lambda>_. Done Schedule)"
| "main_thread e fuel (Returned r) = blocked (Done (Returned r))"

section \<open>Alone, each is the operation\<close>

lemma alone_eqI: "(\<And>s. run_state (alone p) s = run_state m s) \<Longrightarrow> alone p = m"
  by (rule state.expand) (simp add: fun_eq_iff)

lemma alone_adv_stop [thread_simps]: "alone ble_adv_stop_thread = ble_adv_stop"
  by (simp add: ble_adv_stop_thread_def ble_adv_stop_def thread_simps)

lemma alone_adv_start [thread_simps]: "alone (ble_adv_start_thread e) = ble_adv_start e"
  by (rule alone_eqI) (auto simp: ble_adv_start_thread_def ble_adv_start_def thread_simps
      split: prod.splits)

lemma alone_ble_init [thread_simps]: "alone (ble_init_thread e) = ble_init e"
  by (rule alone_eqI) (auto simp: ble_init_thread_def ble_init_def thread_simps)

lemma alone_work [thread_simps]: "alone (ble_work_thread e) = ble_work_handler e"
  by (simp add: ble_work_thread_def ble_work_handler_def thread_simps)

lemma alone_enable [thread_simps]: "alone (ble_enable_thread e u) = ble_enable e u"
  by (rule alone_eqI) (auto simp: ble_enable_thread_def ble_enable_def ble_enable_body_def
      thread_simps split: prod.splits)

lemma alone_disable [thread_simps]: "alone (ble_disable_thread u) = ble_disable u"
  by (rule alone_eqI) (auto simp: ble_disable_thread_def ble_disable_def thread_simps
      split: prod.splits)

lemma alone_button [thread_simps]: "alone (button_worker_thread e) = button_pressed_worker e"
  by (rule alone_eqI) (auto simp: button_worker_thread_def button_pressed_worker_def thread_simps)

lemma exec_cmd_ble: "exec (alone (cmd_ble_thread e argv)) s = exec (cmd_ble e argv) s"
  by (auto simp: cmd_ble_thread_def cmd_ble_def thread_simps split: prod.splits)

lemma exec_handler_thread: "exec (alone (handler_thread e h)) s = exec (handler_op e h) s"
proof (cases h)
  case (Shell_line argv)
  show ?thesis
  proof (cases "argv \<noteq> [] \<and> hd argv = ''bluetooth''")
    case True
    with exec_cmd_ble [of e argv s] Shell_line show ?thesis
      by (auto simp: shell_command_def split: prod.splits)
  qed (use Shell_line in \<open>auto simp: thread_simps split: prod.splits\<close>)
qed (auto simp: thread_simps adv_provisioning_work_handler_def split: prod.splits)

lemma alone_ipc_send [thread_simps]: "alone (ipc_send_thread e m) = ipc_send e m"
  by (rule alone_eqI) (auto simp: ipc_send_thread_def ipc_send_def thread_simps)

lemma alone_open [thread_simps]: "alone (sat_endpoint_open_thread e) = sat_endpoint_open e"
  by (rule alone_eqI) (auto simp: sat_endpoint_open_thread_def sat_endpoint_open_def
      cpunet_stack_mark_def
      thread_simps)

lemma alone_sat_disable [thread_simps]: "alone (sat_disable_thread e) = sat_disable e"
  by (rule alone_eqI) (auto simp: sat_disable_thread_def sat_disable_def thread_simps)

lemma alone_send_loop [thread_simps]:
  "alone (send_loop_thread e fuel pkt now end_ms) = send_loop e fuel pkt now end_ms"
  by (induction fuel arbitrary: now; rule alone_eqI) (auto simp: thread_simps)

lemma alone_transmit_packet [thread_simps]:
  "alone (transmit_packet_thread e fuel pkt) = transmit_packet e fuel pkt"
  by (rule alone_eqI) (auto simp: transmit_packet_thread_def transmit_packet_def thread_simps
      split: prod.splits option.splits)

lemma alone_transmit [thread_simps]: "alone (sat_transmit_thread e fuel) = sat_transmit e fuel"
  by (rule alone_eqI) (auto simp: sat_transmit_thread_def sat_transmit_def thread_simps
      Let_def split: prod.splits)

lemma alone_main_thread:
  "main_enabled pc s \<Longrightarrow> run_state (main_step e fuel pc) s = (Some pc', s') \<Longrightarrow>
   run_state (alone (main_thread e fuel pc)) s = (pc', s')"
  by (cases pc) (auto simp: thread_simps sat_endpoint_init_def
      split: prod.splits option.splits if_splits)

section \<open>Alone, nothing blocks it but what blocks the operation\<close>

lemma unblocked_free [thread_simps]:
  "unblocked ble_adv_stop_thread s" "unblocked (ble_adv_start_thread e) t"
  "unblocked (ble_init_thread e) t" "unblocked (ipc_send_thread e m) s"
  "unblocked (sat_endpoint_open_thread e) s" "unblocked (sat_disable_thread e) s"
  by (simp_all add: ble_adv_stop_thread_def ble_adv_start_thread_def ble_init_thread_def
      ipc_send_thread_def sat_endpoint_open_thread_def sat_disable_thread_def thread_simps
      split: prod.splits)

lemma unblocked_enable [thread_simps]: "unblocked (ble_enable_thread e u) s = radio_free s"
  by (simp add: ble_enable_thread_def thread_simps)

lemma unblocked_disable [thread_simps]: "unblocked (ble_disable_thread u) s = radio_free s"
  by (simp add: ble_disable_thread_def thread_simps)

lemma unblocked_handler: "handler_enabled h s \<Longrightarrow> unblocked (handler_thread e h) s"
  by (cases h) (auto simp: thread_simps ble_work_thread_def button_worker_thread_def
      cmd_ble_thread_def radio_free_def)

lemma unblocked_send_loop [thread_simps]: "unblocked (send_loop_thread e fuel pkt now end_ms) s"
  by (induction fuel arbitrary: now s) (simp_all add: thread_simps)

lemma unblocked_transmit [thread_simps]: "unblocked (sat_transmit_thread e fuel) s"
  by (simp add: sat_transmit_thread_def transmit_packet_thread_def thread_simps
      split: prod.splits option.splits)

lemma unblocked_main:
  "main_enabled pc s \<Longrightarrow> run_state (main_step e fuel pc) s = (Some pc', s') \<Longrightarrow>
   unblocked (main_thread e fuel pc) s"
  by (cases pc) (auto simp: thread_simps split: prod.splits option.splits if_splits)

section \<open>All of them keep the lock discipline\<close>

text \<open>The calls that drive a radio, all made under the mutex once main has booted, and those
  that an action may make in any case.\<close>

fun uses_radio :: "call \<Rightarrow> bool" where
  "uses_radio Bt_enable = True"
| "uses_radio Bt_disable = True"
| "uses_radio (Cpunet_enable b) = True"
| "uses_radio (Packet_send pkt r) = True"
| "uses_radio (Ipc_send m) = True"
| "uses_radio c = False"

definition tame :: "call \<Rightarrow> bool" where
  "tame c \<longleftrightarrow> \<not> is_mutex_op c \<and> \<not> uses_radio c"

lemma quiet_tame: "quiet c \<Longrightarrow> tame c"
  by (cases c) (auto simp: tame_def)

lemma frames_tame: "frames quiet m \<Longrightarrow> emits tame m"
  by (auto simp: frames_def intro!: emitsI) (metis list_all_iff quiet_tame)

lemma disciplined_tame:
  assumes "emits tame m" and "\<And>x. disciplined W A Q (k x) b" and "\<And>c. A c \<Longrightarrow> uses_radio c"
  shows "disciplined W A Q (act m k) b"
  by (rule disciplined_act [OF emits_mono [OF assms(1)] assms(2)])
    (use assms(3) in \<open>auto simp: tame_def\<close>)

lemma disciplined_held:
  assumes "emits (\<lambda>c. \<not> is_mutex_op c) m" and "\<And>x. disciplined W A Q (k x) True"
  shows "disciplined W A Q (act m k) True"
  by (rule disciplined_act [OF emits_mono [OF assms(1)] assms(2)]) simp

lemma tame_not_mutex: "emits tame m \<Longrightarrow> emits (\<lambda>c. \<not> is_mutex_op c) m"
  by (erule emits_mono) (simp add: tame_def)

lemma tame_call [emits_intros]: "emits tame (tell Adv_stop)"
  "emits tame (tell (Timer_stop t))" "emits tame (tell (Timer_start t n p))"
  "emits tame (ask f (Ble_advertise_get k))" "emits tame (ask g (Adv_start os i j ad sd))"
  by (auto intro!: emits_intros simp: tame_def)

lemma tame_modify [emits_intros]:
  fixes f :: "'a world_scheme \<Rightarrow> 'a world_scheme"
  shows "(\<And>s. calls (f s) = calls s) \<Longrightarrow> emits tame (modify f)"
  by (rule emits_modify)

text \<open>A program that has the mutex at its end if it had it at its start.\<close>

definition leaves :: "bool \<Rightarrow> 'r \<Rightarrow> bool \<Rightarrow> bool" where
  "leaves b r b' \<longleftrightarrow> b' = b"

lemma leaves_same [simp]: "leaves b r b"
  by (simp add: leaves_def)

lemma disciplined_adv_stop:
  "(\<And>c. A c \<Longrightarrow> uses_radio c) \<Longrightarrow> disciplined W A (leaves b) ble_adv_stop_thread b"
  unfolding ble_adv_stop_thread_def
  by (intro disciplined_tame discipline_intros emits_intros) simp_all

lemma disciplined_adv_start:
  "(\<And>c. A c \<Longrightarrow> uses_radio c) \<Longrightarrow> disciplined W A (leaves b) (ble_adv_start_thread e) b"
  unfolding ble_adv_start_thread_def
  by (intro disciplined_tame discipline_intros emits_intros) simp_all

lemma disciplined_ble_init:
  "(\<And>c. A c \<Longrightarrow> uses_radio c) \<Longrightarrow> disciplined W A (leaves b) (ble_init_thread e) b"
  unfolding ble_init_thread_def
  by (intro disciplined_tame discipline_intros emits_intros) simp_all

lemma disciplined_then [discipline_intros]:
  "disciplined W A (leaves b) p b \<Longrightarrow> (\<And>x. disciplined W A Q (f x) b) \<Longrightarrow>
   disciplined W A Q (call_then p f) b"
  by (rule disciplined_call_then [where R = "leaves b"]) (auto simp: leaves_def)

lemmas disciplined_adv = disciplined_adv_stop disciplined_adv_start disciplined_ble_init

lemma disciplined_enable:
  assumes "\<And>c. A c \<Longrightarrow> uses_radio c"
  shows "disciplined W A (\<lambda>_ b. \<not> b) (ble_enable_thread e u) False"
  unfolding ble_enable_thread_def
  by (intro discipline_intros disciplined_held emits_intros emits_modify
      disciplined_adv assms) simp_all

lemma disciplined_disable:
  assumes "\<And>c. A c \<Longrightarrow> uses_radio c"
  shows "disciplined W A (\<lambda>_ b. \<not> b) (ble_disable_thread u) False"
  unfolding ble_disable_thread_def
  by (intro discipline_intros disciplined_held emits_intros emits_modify
      disciplined_adv assms) simp_all

lemma tame_handler:
  assumes "h \<notin> {Button_worker, Ble_worker, Provisioning_worker}"
    and "\<And>argv. h = Shell_line argv \<Longrightarrow> argv = [] \<or> hd argv \<noteq> ''bluetooth''"
  shows "emits tame (handler_op e h :: (ble_state, unit) state)"
proof (cases h)
  case (Gatt_write req flags)
  have "emits tame (chr_write_cb e req flags :: (ble_state, int) state)"
    using timed_write [of e req flags] quiet_tame
    unfolding timed_def by (intro emitsI) (metis list_all_iff)
  with Gatt_write show ?thesis by (auto intro: emits_intros)
next
  case (Shell_line argv)
  have "frames quiet m" if "shell_command e argv = Some (m :: (ble_state, int) state)" for m
    using that assms(2) [OF Shell_line] frames_shell_command [OF that] by (auto simp: shell_command_def)
  with Shell_line show ?thesis
    by (auto intro!: frames_tame frames_bind frames_return split: option.split)
next
  case Disconnected
  then show ?thesis by (auto simp: disconnected_cb_def tame_def intro!: emits_intros)
next
  case Sat_expired
  then show ?thesis by (auto simp: timer_cb_def tame_def intro!: emits_intros)
qed (use assms(1) in \<open>auto intro!: frames_tame frames_intros\<close>)

lemma disciplined_cmd_ble:
  "disciplined W uses_radio (\<lambda>_ b. \<not> b) (cmd_ble_thread e argv :: (ble_state, unit) prog) False"
proof (cases "length argv = 2 \<and> argv ! 1 \<in> {''enable'', ''disable''}")
  case True
  then show ?thesis
    by (auto simp: cmd_ble_thread_def intro: disciplined_enable disciplined_disable)
next
  case False
  then have "frames quiet (cmd_ble e argv :: (ble_state, int) state)"
    by (auto simp: cmd_ble_def intro!: frames_intros)
  with False show ?thesis
    by (auto simp: cmd_ble_thread_def intro!: disciplined_tame frames_tame)
qed

lemma disciplined_handler:
  "disciplined W uses_radio (\<lambda>_ b. \<not> b) (handler_thread e h :: (ble_state, unit) prog) False"
proof -
  have plain: ?thesis if "handler_thread e h = (act (handler_op e h) Done :: (ble_state, unit) prog)"
      "h \<notin> {Button_worker, Ble_worker, Provisioning_worker}"
      "\<And>argv. h = Shell_line argv \<Longrightarrow> argv = [] \<or> hd argv \<noteq> ''bluetooth''"
    unfolding that(1) by (rule disciplined_tame [OF tame_handler [OF that(2,3)]]) simp_all
  show ?thesis
  proof (cases h)
    case (Shell_line argv)
    show ?thesis
    proof (cases "argv \<noteq> [] \<and> hd argv = ''bluetooth''")
      case True
      with Shell_line show ?thesis by (simp add: disciplined_cmd_ble)
    next
      case False
      with Shell_line show ?thesis by (intro plain) auto
    qed
  next
    case Button_worker
    then show ?thesis
      by (auto simp: button_worker_thread_def tame_def intro!: disciplined_tame emits_intros
          discipline_intros disciplined_enable disciplined_disable)
  next
    case Ble_worker
    then show ?thesis
      by (auto simp: ble_work_thread_def intro!: discipline_intros disciplined_adv)
  next
    case Provisioning_worker
    then show ?thesis
      by (auto intro!: discipline_intros disciplined_adv)
  qed (rule plain; simp)+
qed

lemma disciplined_open: "disciplined W A (leaves True) (sat_endpoint_open_thread e) True"
  unfolding sat_endpoint_open_thread_def cpunet_stack_mark_def
  by (intro discipline_intros disciplined_held emits_intros) simp_all

lemma disciplined_ipc_send: "disciplined W A (leaves True) (ipc_send_thread e m) True"
  unfolding ipc_send_thread_def
  by (intro discipline_intros disciplined_held emits_intros) simp_all

lemma disciplined_stop: "disciplined W A (leaves True) (sat_disable_thread e) True"
  unfolding sat_disable_thread_def
  by (intro discipline_intros disciplined_held emits_intros) simp_all

lemma disciplined_send_loop:
  "disciplined W A (leaves True) (send_loop_thread e fuel pkt now end_ms) True"
proof (induction fuel arbitrary: now)
  case 0
  show ?case by simp
next
  case (Suc fuel)
  show ?case
    by (subst send_loop_thread.simps)
      (intro discipline_intros disciplined_held emits_intros Suc.IH, simp_all)
qed

lemma quiet_held:
  fixes m :: "('a ble_state_scheme, 'b) state"
  shows "frames quiet m \<Longrightarrow> emits (\<lambda>c. \<not> is_mutex_op c) m"
  by (rule tame_not_mutex [OF frames_tame])

lemma disciplined_transmit:
  "disciplined W A (leaves True) (sat_transmit_thread e fuel :: ('a ble_state_scheme, int option) prog) True"
  unfolding sat_transmit_thread_def transmit_packet_thread_def
  by (intro discipline_intros disciplined_held disciplined_send_loop emits_ask emits_modify
      quiet_held frames_payload_build frames_led_start frames_led_stop frames_transmission_time)
    simp_all

lemma disciplined_result:
  assumes "emits (\<lambda>c. \<not> is_mutex_op c \<and> (A c \<longrightarrow> b)) m" and "\<And>s. Q (result m s) b"
  shows "disciplined W A Q (act m Done) b"
  unfolding act_def
  by (rule disciplined_segment) (use assms in \<open>auto simp: emits_def\<close>)

lemma arms_tame: "arms c \<Longrightarrow> tame c"
  by (cases c) (auto simp: tame_def)

lemma main_emits:
  fixes e :: env
  shows "emits (\<lambda>c. \<not> is_mutex_op c) (main_boot e :: (ble_state, main_pc) state)"
    and "emits tame (main_start e :: (ble_state, main_pc) state)"
    and "emits tame (sat_schedule_next_transmission e fuel :: (ble_state, int option) state)"
proof -
  have frames: "emits B m" if "frames A m" and "\<And>c. A c \<Longrightarrow> B c"
    for A B and m :: "(ble_state, 'c) state"
  proof (rule emitsI)
    fix s
    show "\<exists>cs. calls (exec m s) = calls s @ cs \<and> list_all B cs"
      by (rule framesE [OF that(1), of s]) (use that(2) in \<open>auto simp: list_all_iff\<close>)
  qed
  show "emits (\<lambda>c. \<not> is_mutex_op c) (main_boot e :: (ble_state, main_pc) state)"
    by (rule frames [OF frames_main_boot]) (auto dest: quiet_no_mutex)
  have "frames (\<lambda>c. quiet c \<or> (\<exists>t k. c = Hubble_init t k)) (main_start e :: (ble_state, main_pc) state)"
    unfolding main_start_def by (intro frames_intros) auto
  then show "emits tame (main_start e :: (ble_state, main_pc) state)"
    by (rule frames) (auto dest: quiet_tame simp: tame_def)
  show "emits tame (sat_schedule_next_transmission e fuel :: (ble_state, int option) state)"
    by (rule frames [OF frames_schedule]) (rule arms_tame)
qed

text \<open>Booting uses the radio without the mutex: it is the one segment that does.\<close>

lemma disciplined_main:
  "disciplined True (\<lambda>c. uses_radio c \<and> pc \<noteq> Boot) (\<lambda>pc' b. b = holds_radio pc')
     (main_thread e fuel pc :: (ble_state, main_pc) prog) (holds_radio pc)"
proof (cases pc)
  case Boot
  have "\<not> holds_radio (result (main_boot e) s)" for s :: ble_state
    using main_boot_next [of e s] by (auto simp: holds_radio_def)
  with Boot main_emits(1) [of e] show ?thesis
    by (auto intro!: disciplined_result simp: holds_radio_def)
next
  case Start
  have "\<not> holds_radio (result (main_start e) s)" for s :: ble_state
    using main_start_next [of e s] by (auto simp: holds_radio_def)
  with Start show ?thesis
    by (auto intro!: disciplined_result emits_mono [OF main_emits(2)] simp: holds_radio_def tame_def)
next
  case Schedule
  then show ?thesis
    by (auto simp: holds_radio_def intro!: disciplined_tame [OF main_emits(3)] discipline_intros)
next
  case Enable_ble
  then show ?thesis
    by (auto simp: holds_radio_def intro!: disciplined_call_then [OF disciplined_enable])
next
  case Disable_ble
  then show ?thesis
    by (auto simp: holds_radio_def intro!: disciplined_call_then [OF disciplined_disable])
next
  case Start_sat
  then show ?thesis
    by (auto simp: holds_radio_def intro!: disciplined_then [OF disciplined_open])
next
  case Wait_bound
  then show ?thesis
    by (auto simp: holds_radio_def intro!: disciplined_wait disciplined_then [OF disciplined_ipc_send])
next
  case Transmit
  then show ?thesis
    by (auto simp: holds_radio_def intro!: disciplined_then [OF disciplined_transmit] discipline_intros)
next
  case Stop_sat
  then show ?thesis
    by (auto simp: holds_radio_def intro!: disciplined_then [OF disciplined_stop])
next
  case Restore_mark
  then show ?thesis
    by (auto simp: holds_radio_def cpunet_stack_mark_def tame_def intro!: disciplined_tame emits_intros)
qed (auto simp: holds_radio_def intro!: discipline_intros)

interpretation radio_threads: disciplined_system
    "main_thread e fuel :: main_pc \<Rightarrow> (ble_state, main_pc) prog"
    "handler_thread e :: handler \<Rightarrow> (ble_state, unit) prog"
    P uses_radio "\<lambda>pc. pc = Boot" holds_radio for e :: env and fuel :: nat and P :: "handler \<Rightarrow> bool"
  by unfold_locales (auto intro: disciplined_main disciplined_handler elim: uses_radio.elims)

end
