(* ===== verification/Core_Threads.thy ===== *)
theory Core_Threads
  imports Radio_Threads App_Field
begin

text \<open>
  The application core with its threads preempting each other, from reset: what is invariant
  of it, and that every run of the atomic system \<open>app_step\<close> is one of its runs, so that what
  can be reached there can be reached here.
\<close>

section \<open>The preemptive application core\<close>

definition core_reach ::
    "env \<Rightarrow> nat \<Rightarrow> (handler \<Rightarrow> bool) \<Rightarrow> (ble_state, main_pc) system \<Rightarrow> bool" where
  "core_reach e fuel P =
     sys_reach (main_thread e fuel) (handler_thread e) P Boot (exec (system_init e) (initial_state e))"

definition core_step ::
    "env \<Rightarrow> nat \<Rightarrow> (handler \<Rightarrow> bool) \<Rightarrow> thread \<Rightarrow> (ble_state, main_pc) system \<Rightarrow>
     (ble_state, main_pc) system \<Rightarrow> bool" where
  "core_step e fuel P = sys_step (main_thread e fuel) (handler_thread e) P"

abbreviation core_steps ::
    "env \<Rightarrow> nat \<Rightarrow> (handler \<Rightarrow> bool) \<Rightarrow> (ble_state, main_pc) system \<Rightarrow>
     (ble_state, main_pc) system \<Rightarrow> bool" where
  "core_steps e fuel P \<equiv> sys_steps (main_thread e fuel) (handler_thread e) P"

lemma core_steps_reach: "core_reach e fuel P c \<Longrightarrow> core_steps e fuel P c c' \<Longrightarrow> core_reach e fuel P c'"
  unfolding core_reach_def by (rule steps_reach)

lemma core_reach_inv:
  assumes "core_reach e fuel P c"
  shows "radio_threads.sys_inv c"
proof -
  have "lock_depth (calls (exec (system_init e) (initial_state e))) = 0"
    using radio_free_initial [of e] by (simp add: radio_free_def)
  with assms show ?thesis
    unfolding core_reach_def by (rule radio_threads.reach_inv) (simp add: holds_radio_def)
qed

section \<open>Runs without preemption are runs\<close>

text \<open>The configuration \<open>(pc, s)\<close> of the atomic system: main at the start of a segment.\<close>

definition at_segment ::
    "env \<Rightarrow> nat \<Rightarrow> main_pc \<times> ble_state \<Rightarrow> (ble_state, main_pc) system \<Rightarrow> bool" where
  "at_segment e fuel x c \<longleftrightarrow> sys_seg c = fst x \<and> sys_main c = main_thread e fuel (fst x) \<and>
     sys_mem c = snd x"

definition idle :: "(ble_state, main_pc) system \<Rightarrow> bool" where
  "idle c \<longleftrightarrow> (\<forall>p \<in> set (sys_tasks c). p = Done ())"

lemma simulate_main:
  assumes "at_segment e fuel (pc, s) c" and "main_enabled pc s"
    and "run_state (main_step e fuel pc) s = (Some pc', s')"
  shows "\<exists>c'. core_steps e fuel P c c' \<and> at_segment e fuel (pc', s') c' \<and> sys_tasks c' = sys_tasks c \<and>
    (core_reach e fuel P c \<longrightarrow> (sys_owner c' = Some Main_thread) = holds_radio pc')"
proof -
  have c: "sys_main c = call_then (main_thread e fuel pc) Done" "sys_mem c = s"
    using assms(1) by (simp_all add: at_segment_def)
  obtain ow where 1: "(sys_step (main_thread e fuel) (handler_thread e) P Main_thread)\<^sup>*\<^sup>* c
      (c\<lparr>sys_main := Done pc', sys_mem := s', sys_owner := ow\<rparr>)"
    using main_prefix [OF c(1), of "main_thread e fuel" "handler_thread e" P]
      unblocked_main [OF assms(2,3)] alone_main_thread [OF assms(2,3)] c(2) by auto
  let ?c = "c\<lparr>sys_main := Done pc', sys_mem := s', sys_owner := ow\<rparr>"
  let ?c' = "?c\<lparr>sys_seg := pc', sys_main := main_thread e fuel pc'\<rparr>"
  have "sys_step (main_thread e fuel) (handler_thread e) P Main_thread ?c ?c'"
    by (rule sys_step.main_segment) simp
  with 1 have "(sys_step (main_thread e fuel) (handler_thread e) P Main_thread)\<^sup>*\<^sup>* c ?c'"
    by (rule rtranclp.rtrancl_into_rtrancl)
  then have "core_steps e fuel P c ?c'" by (rule thread_steps)
  moreover have "at_segment e fuel (pc', s') ?c'" "sys_tasks ?c' = sys_tasks c"
    by (simp_all add: at_segment_def)
  moreover have "(sys_owner ?c' = Some Main_thread) = holds_radio pc'" if "core_reach e fuel P c"
    using radio_threads.between_segments [of ?c pc']
      core_reach_inv [OF core_steps_reach [OF that thread_steps [OF 1]]] by simp
  ultimately show ?thesis by blast
qed

lemma task_started:
  "P h \<Longrightarrow> core_steps e fuel P c (c\<lparr>sys_tasks := sys_tasks c @ [handler_thread e h]\<rparr>)"
  by (rule thread_steps, rule r_into_rtranclp, rule sys_step.task_start) auto

lemma simulate_handler:
  assumes "at_segment e fuel (pc, s) c" and "P h" and "handler_enabled h s" and "idle c"
  shows "\<exists>c'. core_steps e fuel P c c' \<and> at_segment e fuel (pc, exec (handler_op e h) s) c' \<and> idle c'"
proof -
  let ?n = "length (sys_tasks c)"
  let ?c = "c\<lparr>sys_tasks := sys_tasks c @ [handler_thread e h]\<rparr>"
  have c: "sys_mem c = s" using assms(1) by (simp add: at_segment_def)
  obtain ow r where "(sys_step (main_thread e fuel) (handler_thread e) P (Task ?n))\<^sup>*\<^sup>* ?c
      (?c\<lparr>sys_tasks := (sys_tasks ?c)[?n := Done r],
         sys_mem := exec (alone (handler_thread e h)) s, sys_owner := ow\<rparr>)"
    using task_prefix [of ?n ?c "handler_thread e h" Done "main_thread e fuel" "handler_thread e" P]
      unblocked_handler [OF assms(3), of e] c by auto
  then have "core_steps e fuel P ?c (?c\<lparr>sys_tasks := (sys_tasks ?c)[?n := Done r],
      sys_mem := exec (handler_op e h) s, sys_owner := ow\<rparr>)"
    unfolding exec_handler_thread by (rule thread_steps)
  with task_started [of P h, OF assms(2), of e fuel c]
  have "core_steps e fuel P c (?c\<lparr>sys_tasks := (sys_tasks ?c)[?n := Done r],
      sys_mem := exec (handler_op e h) s, sys_owner := ow\<rparr>)"
    by (rule rtranclp_trans)
  moreover have "at_segment e fuel (pc, exec (handler_op e h) s) (?c\<lparr>sys_tasks := (sys_tasks ?c)[?n := Done r],
      sys_mem := exec (handler_op e h) s, sys_owner := ow\<rparr>)"
    using assms(1) by (simp add: at_segment_def)
  moreover have "idle (?c\<lparr>sys_tasks := (sys_tasks ?c)[?n := Done r],
      sys_mem := exec (handler_op e h) s, sys_owner := ow\<rparr>)"
    using assms(4) by (simp add: idle_def)
  ultimately show ?thesis by blast
qed

lemma simulate_step:
  assumes "at_segment e fuel x c" and "idle c" and "app_step e fuel P x x'"
  shows "\<exists>c'. core_steps e fuel P c c' \<and> at_segment e fuel x' c' \<and> idle c'"
  using assms(3)
proof (cases rule: app_step.cases)
  case (main pc s pc' s')
  with assms(1) simulate_main [of e fuel pc s c pc' s' P] obtain c' where
    "core_steps e fuel P c c'" "at_segment e fuel x' c'" "sys_tasks c' = sys_tasks c" by auto
  with assms(2) show ?thesis by (auto simp: idle_def)
next
  case (handler h s pc)
  with assms(1,2) simulate_handler show ?thesis by blast
qed

lemma simulate_reach:
  assumes "app_reach e fuel P x"
  shows "\<exists>c. core_reach e fuel P c \<and> at_segment e fuel x c \<and> idle c"
  using assms
proof (induction rule: app_reach.induct)
  case init
  show ?case
    by (intro exI conjI, unfold core_reach_def, rule sys_reach.init)
      (simp_all add: at_segment_def idle_def)
next
  case (step x x')
  then obtain c where c: "core_reach e fuel P c" "at_segment e fuel x c" "idle c" by blast
  with simulate_step [OF c(2,3) step.hyps(2)] core_steps_reach show ?case by blast
qed

section \<open>Configurations of a device in the field\<close>

lemma section_entered:
  assumes "core_reach e fuel P c" and "radio_free (sys_mem c)"
    and "P (Shell_line [''bluetooth'', ''disable''])"
  defines "i \<equiv> length (sys_tasks c)"
  shows "\<exists>c'. core_reach e fuel P c' \<and> sys_owner c' = Some (Task i) \<and> sys_seg c' = sys_seg c \<and>
    sys_mem c' = (sys_mem c)\<lparr>calls := calls (sys_mem c) @ [Mutex_lock Radio_mutex]\<rparr>"
proof -
  let ?h = "Shell_line [''bluetooth'', ''disable'']"
  let ?c = "c\<lparr>sys_tasks := sys_tasks c @ [ble_disable_thread True]\<rparr>"
  have 1: "core_steps e fuel P c ?c"
    using task_started [of P ?h e fuel c] assms(3) by (simp add: cmd_ble_thread_def)
  obtain g m k where p: "(ble_disable_thread True :: (ble_state, unit) prog) = Act g m k" "g = radio_free"
      "m = exec (tell (Mutex_lock Radio_mutex))"
    by (simp add: ble_disable_thread_def lock_radio_def)
  let ?c' = "(sys_act (Task i) m ?c)\<lparr>sys_tasks := (sys_tasks ?c)[i := k (sys_mem ?c)]\<rparr>"
  have "sys_step (main_thread e fuel) (handler_thread e) P (Task i) ?c ?c'"
    by (rule sys_step.task_act [where g = g]) (use p assms(2) in \<open>simp_all add: i_def\<close>)
  then have 2: "core_steps e fuel P ?c ?c'" by blast
  have "sys_owner c = None"
    using core_reach_inv [OF assms(1)] assms(2)
    by (auto simp: radio_threads.sys_inv_def radio_free_def split: if_splits)
  with p(3) have "sys_owner ?c' = Some (Task i)" "sys_seg ?c' = sys_seg c"
      "sys_mem ?c' = (sys_mem c)\<lparr>calls := calls (sys_mem c) @ [Mutex_lock Radio_mutex]\<rparr>"
    by (simp_all add: sys_act_def)
  with core_steps_reach [OF core_steps_reach [OF assms(1) 1] 2] show ?thesis by blast
qed

lemma field_section_entered:
  assumes "300000 < fuel"
  shows "\<exists>c i. core_reach field_env fuel well_formed c \<and> sys_owner c = Some (Task i) \<and>
    sys_seg c = Wait_timer"
proof -
  obtain s where s: "app_reach field_env fuel well_formed (Wait_timer, s)"
    using field_reaches_timer [OF assms] by blast
  then have free: "radio_free s"
    using reach_radio [OF s] by (simp add: radio_inv_def radio_free_def holds_radio_def)
  obtain c where "core_reach field_env fuel well_formed c" "at_segment field_env fuel (Wait_timer, s) c"
    using simulate_reach [OF s] by blast
  with section_entered [of field_env fuel well_formed c] free show ?thesis
    by (auto simp: at_segment_def)
qed

text \<open>A thread that makes a call on its way makes it in one of its steps.\<close>

lemma thread_call:
  assumes "(core_step e fuel P t)\<^sup>*\<^sup>* c c'" and "core_reach e fuel P c"
    and "x \<in> set (new_calls (sys_mem c) (sys_mem c'))"
  shows "\<exists>c1 c2. core_reach e fuel P c1 \<and> core_step e fuel P t c1 c2 \<and>
    x \<in> set (new_calls (sys_mem c1) (sys_mem c2))"
  using assms(1,3)
proof (induction rule: rtranclp_induct)
  case base
  then show ?case by (simp add: new_calls_def)
next
  case (step c1 c2)
  have "core_steps e fuel P c c1"
    using step.hyps(1) unfolding core_step_def by (rule thread_steps)
  with assms(2) have r: "core_reach e fuel P c1" by (rule core_steps_reach)
  obtain cs where cs: "calls (sys_mem c2) = calls (sys_mem c1) @ cs"
    using radio_threads.step_act_ok [OF core_reach_inv [OF r] step.hyps(2) [unfolded core_step_def]]
    by (metis append_Nil2)
  show ?case
  proof (cases "x \<in> set cs")
    case True
    with r step.hyps(2) cs show ?thesis by (metis new_calls_append)
  next
    case False
    with step.prems cs have "x \<in> set (new_calls (sys_mem c) (sys_mem c1))"
      by (auto simp: new_calls_def dest: in_set_dropD)
    then show ?thesis by (rule step.IH)
  qed
qed

lemma field_task_calls:
  assumes "300000 < fuel"
  shows "\<exists>c c' i. core_reach field_env fuel well_formed c \<and>
    core_step field_env fuel well_formed (Task i) c c' \<and>
    Bt_disable \<in> set (new_calls (sys_mem c) (sys_mem c'))"
proof -
  let ?h = "Shell_line [''bluetooth'', ''disable'']"
  obtain s where s: "app_reach field_env fuel well_formed (Wait_timer, s)"
    using field_reaches_timer [OF assms] by blast
  then have free: "radio_free s"
    using reach_radio [OF s] by (simp add: radio_inv_def radio_free_def holds_radio_def)
  obtain c where c: "core_reach field_env fuel well_formed c" "sys_mem c = s"
    using simulate_reach [OF s] by (auto simp: at_segment_def)
  let ?i = "length (sys_tasks c)"
  let ?c = "c\<lparr>sys_tasks := sys_tasks c @ [ble_disable_thread True]\<rparr>"
  have "core_steps field_env fuel well_formed c ?c"
    using task_started [of well_formed ?h field_env fuel c] by (simp add: cmd_ble_thread_def)
  with c(1) have r: "core_reach field_env fuel well_formed ?c" by (rule core_steps_reach)
  have n: "?i < length (sys_tasks ?c)" "sys_tasks ?c ! ?i = call_then (ble_disable_thread True) Done"
    by simp_all
  obtain ow where 1: "(core_step field_env fuel well_formed (Task ?i))\<^sup>*\<^sup>* ?c
      (?c\<lparr>sys_tasks := (sys_tasks ?c)[?i := Done ()], sys_mem := exec (ble_disable True) s, sys_owner := ow\<rparr>)"
    using task_prefix [OF n, of "main_thread field_env fuel" "handler_thread field_env" well_formed]
      c(2) free unfolding core_step_def by (auto simp: thread_simps)
  have "Bt_disable \<in> set (new_calls s (exec (ble_disable True) s))"
    by (simp add: ble_disable_def ble_adv_stop_def new_calls_def)
  with thread_call [OF 1 r, of Bt_disable] c(2) show ?thesis by (simp, blast)
qed

end
