(* ===== verification/Thread_Properties.thy ===== *)
theory Thread_Properties
  imports Core_Threads
begin

text \<open>
  The properties of the application core when its threads preempt each other between any two
  calls: what the radio mutex protects, and what it does not.
\<close>

section \<open>Under the mutex\<close>



text \<open>C1: Whatever preempts whom, the mutex is taken at most once and has exactly one owner
  while it is; between two segments main owns it exactly in the satellite phase, and no
  handler that has ended owns it.\<close>

theorem radio_mutex_owner:
  assumes "core_reach e fuel P c"
  shows "lock_depth (calls (sys_mem c)) = (if sys_owner c = None then 0 else 1) \<and>
    (\<forall>pc. sys_main c = Done pc \<longrightarrow> (sys_owner c = Some Main_thread) = holds_radio pc) \<and>
    (\<forall>i r. sys_owner c = Some (Task i) \<longrightarrow> i < length (sys_tasks c) \<and> sys_tasks c ! i \<noteq> Done r)"
proof -
  note inv = core_reach_inv [OF assms]
  have "sys_tasks c ! i \<noteq> Done r" if "sys_owner c = Some (Task i)" for i r
    using radio_threads.owner_not_done [OF inv that] .
  with inv radio_threads.between_segments [OF inv] show ?thesis
    by (simp add: radio_threads.sys_inv_def)
qed

theorem radio_mutex_owner_witness:
  "\<exists>c. core_reach field_env 300001 well_formed c \<and> sys_seg c = Wait_timer \<and>
     lock_depth (calls (sys_mem c)) = 1"
  using field_section_entered [of 300001] radio_mutex_owner [of field_env 300001 well_formed]
  by (simp, metis option.distinct(1))

text \<open>C20: No handler can keep the mutex for ever: a handler that was preempted while it owns the
  mutex waits for nothing, and its own steps alone lead to a configuration in which the
  mutex is free.\<close>

theorem holder_releases_mutex:
  assumes "core_reach e fuel P c" and "sys_owner c = Some (Task i)"
  shows "\<exists>c'. (core_step e fuel P (Task i))\<^sup>*\<^sup>* c c' \<and> sys_owner c' = None \<and> radio_free (sys_mem c')"
proof -
  note inv = core_reach_inv [OF assms(1)]
  obtain c' where c': "(core_step e fuel P (Task i))\<^sup>*\<^sup>* c c'" "sys_owner c' = None"
    using radio_threads.holder_can_finish [OF inv assms(2), of e fuel P]
    unfolding core_step_def by blast
  then have "radio_threads.sys_inv c'"
    using radio_threads.steps_owner [of e fuel P "Task i" c c' Main_thread] inv
    unfolding core_step_def by blast
  with c' show ?thesis by (auto simp: radio_threads.sys_inv_def radio_free_def)
qed

theorem holder_releases_mutex_witness:
  "\<exists>c i c'. sys_owner c = Some (Task i) \<and> (core_step field_env 300001 well_formed (Task i))\<^sup>*\<^sup>* c c' \<and>
     sys_owner c' = None"
proof -
  obtain c i where c: "core_reach field_env 300001 well_formed c" "sys_owner c = Some (Task i)"
    using field_section_entered [of 300001] by auto
  from holder_releases_mutex [OF this] c(2) show ?thesis by blast
qed

section \<open>The atomic system\<close>



section \<open>Not under the mutex\<close>

text \<open>Whether the beacon's timer runs, and whether Bluetooth was last asked to be on.\<close>

fun ble_timer_after :: "bool \<Rightarrow> call list \<Rightarrow> bool" where
  "ble_timer_after b [] = b"
| "ble_timer_after b (c # cs) = ble_timer_after
     (case c of Timer_start t _ _ \<Rightarrow> t = Ble_timer \<or> b
      | Timer_stop t \<Rightarrow> t \<noteq> Ble_timer \<and> b
      | _ \<Rightarrow> b) cs"

fun bt_after :: "bool \<Rightarrow> call list \<Rightarrow> bool" where
  "bt_after b [] = b"
| "bt_after b (c # cs) = bt_after (case c of Bt_enable \<Rightarrow> True | Bt_disable \<Rightarrow> False | _ \<Rightarrow> b) cs"

lemma ble_timer_after_append [simp]:
  "ble_timer_after b (cs @ ds) = ble_timer_after (ble_timer_after b cs) ds"
  by (induction b cs rule: ble_timer_after.induct) auto

lemma bt_after_append [simp]: "bt_after b (cs @ ds) = bt_after (bt_after b cs) ds"
  by (induction b cs rule: bt_after.induct) auto








text \<open>In the satellite phase nothing switches Bluetooth.\<close>

lemma bt_after_same: "Bt_enable \<notin> set cs \<Longrightarrow> Bt_disable \<notin> set cs \<Longrightarrow> bt_after b cs = b"
proof (induction cs)
  case (Cons c cs)
  then show ?case by (cases c) simp_all
qed simp

lemma satellite_phase_keeps_bt:
  assumes "app_reach e fuel P (pc, s)" and "holds_radio pc" and "app_step e fuel P (pc, s) (pc', s')"
  shows "bt_after b (calls s') = bt_after b (calls s)"
proof -
  have "\<exists>cs. calls s' = calls s @ cs \<and> Bt_enable \<notin> set cs \<and> Bt_disable \<notin> set cs"
    using assms(3)
  proof (cases rule: app_step.cases)
    case main
    then obtain cs where "calls s' = calls s @ cs" "list_all (main_calls pc) cs"
      using main_step_calls by blast
    moreover have "\<not> main_calls pc Bt_enable" "\<not> main_calls pc Bt_disable"
      using assms(2) by (cases pc; simp add: holds_radio_def)+
    ultimately have "Bt_enable \<notin> set cs" "Bt_disable \<notin> set cs" by (auto simp: list_all_iff)
    with \<open>calls s' = calls s @ cs\<close> show ?thesis by blast
  next
    case (handler h)
    have "\<not> radio_free s"
      using reach_radio [OF assms(1)] assms(2) by (simp add: radio_inv_def radio_free_def)
    with handler handler_effect [of h s e] show ?thesis by (auto simp: handler_adds_def)
  qed
  then obtain cs where "calls s' = calls s @ cs" "Bt_enable \<notin> set cs" "Bt_disable \<notin> set cs"
    by blast
  then show ?thesis by (simp add: bt_after_same)
qed

text \<open>C25: Between disabling Bluetooth and taking the mutex for the satellite, main does not hold
  it: a user who enables Bluetooth in that window is served, and main then starts the
  satellite stack with Bluetooth switched on. No step of a satellite phase switches it, so
  it stays on until main has released the mutex again.\<close>

theorem bluetooth_on_in_satellite_phase:
  assumes "app_reach e fuel P (Lock_radio, s)" and "P (Shell_line [''bluetooth'', ''enable''])"
    and "\<And>h. o_bt_enable e h = 0"
  shows "(\<exists>s'. app_reach e fuel P (Start_sat, s') \<and> bt_after b (calls s') \<and>
      lock_depth (calls s') = 1 \<and> \<not> g_ble_off_by_user s') \<and>
    (\<forall>pc t pc' t'. app_reach e fuel P (pc, t) \<and> holds_radio pc \<and> app_step e fuel P (pc, t) (pc', t') \<longrightarrow>
      bt_after b (calls t') = bt_after b (calls t))"
proof -
  let ?h = "Shell_line [''bluetooth'', ''enable'']"
  have free: "radio_free s"
    using reach_radio [OF assms(1)] by (simp add: radio_inv_def radio_free_def holds_radio_def)
  let ?s1 = "exec (ble_enable e True) s"
  have op: "exec (handler_op e ?h) s = ?s1"
    by (simp add: shell_command_def cmd_ble_def split: prod.splits)
  have 1: "app_reach e fuel P (Lock_radio, ?s1)"
    using app_step.handler [of P ?h s e fuel Lock_radio] assms(1,2) free op
    by (auto intro: app_reach.step)
  have free1: "radio_free ?s1"
    using reach_radio [OF 1] by (simp add: radio_inv_def radio_free_def holds_radio_def)
  let ?s2 = "?s1\<lparr>calls := calls ?s1 @ [Mutex_lock Radio_mutex]\<rparr>"
  have "app_step e fuel P (Lock_radio, ?s1) (Start_sat, ?s2)"
    by (rule app_step.main) (use free1 in simp_all)
  with 1 have 2: "app_reach e fuel P (Start_sat, ?s2)" by (rule app_reach.step)
  have "bt_after b (calls ?s1)"
    using assms(3) by (simp add: ble_enable_def ble_enable_body_def ble_init_def ble_adv_start_def
        split: prod.splits)
  moreover have "\<not> g_ble_off_by_user ?s1" by (simp add: ble_enable_user)
  ultimately have "\<exists>s'. app_reach e fuel P (Start_sat, s') \<and> bt_after b (calls s') \<and>
      lock_depth (calls s') = 1 \<and> \<not> g_ble_off_by_user s'"
    using 2 reach_radio [OF 2] by (intro exI [of _ ?s2]) (simp add: radio_inv_def holds_radio_def)
  with satellite_phase_keeps_bt show ?thesis by blast
qed

theorem bluetooth_on_in_satellite_phase_witness:
  "\<exists>s. app_reach field_env 300001 well_formed (Start_sat, s) \<and> bt_after False (calls s)"
proof -
  obtain s where s: "app_reach field_env 300001 well_formed (Wait_timer, s)" "sem_avail Timer_sem s"
    using field_timer_expired [of 300001] by auto
  let ?s1 = "s\<lparr>calls := calls s @ [Sem_take Timer_sem Forever]\<rparr>"
  have free: "radio_free ?s1"
    using reach_radio [OF s(1)] by (simp add: radio_inv_def radio_free_def holds_radio_def)
  have "app_step field_env 300001 well_formed (Wait_timer, s) (Disable_ble, ?s1)"
    by (rule app_step.main) (use s(2) in simp_all)
  moreover have "app_step field_env 300001 well_formed (Disable_ble, ?s1)
      (Lock_radio, exec (ble_disable False) ?s1)"
    by (rule app_step.main) (use free in \<open>simp_all split: prod.splits\<close>)
  ultimately have "app_reach field_env 300001 well_formed (Lock_radio, exec (ble_disable False) ?s1)"
    using s(1) by (blast intro: app_reach.step)
  from bluetooth_on_in_satellite_phase [OF this, of False] show ?thesis
    by (auto simp: field_env_def predicting_env_def sample_env_def)
qed

end
