(* ===== verification/Rely_Guarantee.thy ===== *)
theory Rely_Guarantee
  imports Threads
begin

text \<open>
  Two programs that share variables without a lock. A program is judged by what it relies on
  (how the others may change the state between its actions), what it guarantees (how each of
  its own actions changes it) and what holds when it is done. The locale \<open>rely_guarantee\<close>
  composes two such programs and the rest of the system.
\<close>

section \<open>A program under interference\<close>

primrec rg :: "('s \<Rightarrow> 's \<Rightarrow> bool) \<Rightarrow> ('s \<Rightarrow> 's \<Rightarrow> bool) \<Rightarrow> ('r \<Rightarrow> 's \<Rightarrow> bool) \<Rightarrow>
    ('s, 'r) prog \<Rightarrow> 's \<Rightarrow> bool" where
  "rg R G Q (Done r) = (\<lambda>s. \<forall>t. R s t \<longrightarrow> Q r t)"
| "rg R G Q (Act g m k) = (\<lambda>s. \<forall>t. R s t \<longrightarrow> g t \<longrightarrow> G t (m t) \<and> rg R G Q (k t) (m t))"

lemma rg_act [simp]:
  "rg R G Q (act m k) s \<longleftrightarrow>
     (\<forall>t. R s t \<longrightarrow> G t (exec m t) \<and> rg R G Q (k (result m t)) (exec m t))"
  by (simp add: act_def)

lemma rg_env: "transp R \<Longrightarrow> rg R G Q p s \<Longrightarrow> R s t \<Longrightarrow> rg R G Q p t"
  by (cases p) (auto dest: transpD)

lemma rg_done: "reflp R \<Longrightarrow> rg R G Q (Done r) s \<Longrightarrow> Q r s"
  by (auto dest: reflpD)

text \<open>Assertions that the others keep.\<close>

definition stable :: "('s \<Rightarrow> bool) \<Rightarrow> ('s \<Rightarrow> 's \<Rightarrow> bool) \<Rightarrow> bool" where
  "stable I R \<longleftrightarrow> (\<forall>s t. I s \<longrightarrow> R s t \<longrightarrow> I t)"

lemma stableI: "(\<And>s t. I s \<Longrightarrow> R s t \<Longrightarrow> I t) \<Longrightarrow> stable I R"
  by (auto simp: stable_def)

lemma stableD: "stable I R \<Longrightarrow> I s \<Longrightarrow> R s t \<Longrightarrow> I t"
  by (auto simp: stable_def)

lemma rg_actI:
  assumes "stable I R" and "I s"
    and "\<And>t. I t \<Longrightarrow> G t (exec m t)"
    and "\<And>t. I t \<Longrightarrow> rg R G Q (k (result m t)) (exec m t)"
  shows "rg R G Q (act m k) s"
  using assms by (auto simp: stable_def)

lemma rg_getsI:
  assumes "stable I R" and "I s" and "\<And>t. I t \<Longrightarrow> rg R G Q (k (f t)) t" and "\<And>t. G t t"
  shows "rg R G Q (act (gets f) k) s"
  by (rule rg_actI [OF assms(1,2)]) (simp_all add: assms(3,4))

lemma rg_DoneI: "stable (Q r) R \<Longrightarrow> Q r s \<Longrightarrow> rg R G Q (Done r) s"
  by (auto simp: stable_def)

lemma rg_post:
  "rg R G Q p s \<Longrightarrow> (\<And>r t. Q r t \<Longrightarrow> Q' r t) \<Longrightarrow> rg R G Q' p s"
  by (induction p arbitrary: s) auto

lemma rg_call_then:
  assumes "transp R" and "rg R G Q' p s"
    and "\<And>x t. Q' x t \<Longrightarrow> rg R G Q (f x) t"
    and "reflp R"
  shows "rg R G Q (call_then p f) s"
  using assms(2)
proof (induction p arbitrary: s)
  case (Done x)
  then have "Q' x s" using assms(4) by (auto dest: reflpD)
  then show ?case by (simp add: assms(3))
next
  case (Act g m k)
  show ?case
  proof (simp, intro allI impI)
    fix t
    assume "R s t" "g t"
    with Act.prems have "G t (m t)" "rg R G Q' (k t) (m t)" by auto
    with Act.IH [OF rangeI] show "G t (m t) \<and> rg R G Q (call_then (k t) f) (m t)" by blast
  qed
qed

section \<open>Two programs and the others\<close>

inductive par_step :: "('s \<Rightarrow> 's \<Rightarrow> bool) \<Rightarrow> ('s, 'x) prog \<times> ('s, 'y) prog \<times> 's \<Rightarrow>
    ('s, 'x) prog \<times> ('s, 'y) prog \<times> 's \<Rightarrow> bool" for E where
  par_left: "g s \<Longrightarrow> par_step E (Act g m k, q, s) (k s, q, m s)"
| par_right: "g s \<Longrightarrow> par_step E (p, Act g m k, s) (p, k s, m s)"
| par_other: "E s t \<Longrightarrow> par_step E (p, q, s) (p, q, t)"

abbreviation par_steps :: "('s \<Rightarrow> 's \<Rightarrow> bool) \<Rightarrow> ('s, 'x) prog \<times> ('s, 'y) prog \<times> 's \<Rightarrow>
    ('s, 'x) prog \<times> ('s, 'y) prog \<times> 's \<Rightarrow> bool" where
  "par_steps E \<equiv> (par_step E)\<^sup>*\<^sup>*"

lemma par_steps_mono:
  assumes "par_steps E c c'" and "\<And>s t. E s t \<Longrightarrow> F s t"
  shows "par_steps F c c'"
proof -
  have "par_step E x y \<Longrightarrow> par_step F x y" for x y
    by (induction rule: par_step.induct) (auto intro: par_step.intros assms(2))
  with assms(1) show ?thesis by (metis mono_rtranclp)
qed

locale rely_guarantee =
  fixes R1 G1 R2 G2 E :: "'s \<Rightarrow> 's \<Rightarrow> bool"
  assumes rely_preorder: "reflp R1" "transp R1" "reflp R2" "transp R2"
    and left_relies: "G2 s t \<Longrightarrow> R1 s t" "E s t \<Longrightarrow> R1 s t"
    and right_relies: "G1 s t \<Longrightarrow> R2 s t" "E s t \<Longrightarrow> R2 s t"
begin

lemma par_step_keeps:
  assumes "par_step E (p, q, s) (p', q', s')" and "rg R1 G1 Q1 p s" and "rg R2 G2 Q2 q s"
  shows "rg R1 G1 Q1 p' s' \<and> rg R2 G2 Q2 q' s'"
  using assms
proof (cases rule: par_step.cases)
  case (par_left g m k)
  then have "G1 s s'" "rg R1 G1 Q1 p' s'"
    using assms(2) reflpD [OF rely_preorder(1)] by auto
  moreover have "rg R2 G2 Q2 q s'"
    using rg_env [OF rely_preorder(4) assms(3)] right_relies(1) calculation(1) by blast
  ultimately show ?thesis using par_left by simp
next
  case (par_right g m k)
  then have "G2 s s'" "rg R2 G2 Q2 q' s'"
    using assms(3) reflpD [OF rely_preorder(3)] by auto
  moreover have "rg R1 G1 Q1 p s'"
    using rg_env [OF rely_preorder(2) assms(2)] left_relies(1) calculation(1) by blast
  ultimately show ?thesis using par_right by simp
next
  case par_other
  then have "R1 s s'" "R2 s s'" using left_relies(2) right_relies(2) by blast+
  with par_other rg_env [OF rely_preorder(2) assms(2)] rg_env [OF rely_preorder(4) assms(3)]
  show ?thesis by simp
qed

lemma par_steps_keep:
  "par_steps E (p, q, s) (p', q', s') \<Longrightarrow> rg R1 G1 Q1 p s \<Longrightarrow> rg R2 G2 Q2 q s \<Longrightarrow>
   rg R1 G1 Q1 p' s' \<and> rg R2 G2 Q2 q' s'"
proof (induction "(p', q', s')" arbitrary: p' q' s' rule: rtranclp_induct)
  case (step y)
  obtain p1 q1 s1 where y: "y = (p1, q1, s1)" by (cases y) auto
  with step show ?case using par_step_keeps by blast
qed simp

lemma par_done:
  assumes "par_steps E (p, q, s) (Done x, Done y, t)" and "rg R1 G1 Q1 p s" and "rg R2 G2 Q2 q s"
  shows "Q1 x t" and "Q2 y t"
  using rg_done [OF rely_preorder(1) conjunct1 [OF par_steps_keep [OF assms]]]
    rg_done [OF rely_preorder(3) conjunct2 [OF par_steps_keep [OF assms]]] .

lemma par_left_done:
  assumes "par_steps E (p, q, s) (Done x, q', t)" and "rg R1 G1 Q1 p s" and "rg R2 G2 Q2 q s"
  shows "Q1 x t"
  by (rule rg_done [OF rely_preorder(1) conjunct1 [OF par_steps_keep [OF assms]]])

end

section \<open>Programs that never wait\<close>

primrec never_waits :: "('s, 'r) prog \<Rightarrow> bool" where
  "never_waits (Done r) = True"
| "never_waits (Act g m k) \<longleftrightarrow> (\<forall>s. g s \<and> never_waits (k s))"

lemma never_waits_act [simp]: "(\<And>x. never_waits (k x)) \<Longrightarrow> never_waits (act m k)"
  by (simp add: act_def)

lemma never_waits_call_then:
  "never_waits p \<Longrightarrow> (\<And>x. never_waits (f x)) \<Longrightarrow> never_waits (call_then p f)"
  by (induction p) auto

lemma par_step_never_waits:
  "par_step E c c' \<Longrightarrow> never_waits (fst c) \<and> never_waits (fst (snd c)) \<Longrightarrow>
   never_waits (fst c') \<and> never_waits (fst (snd c'))"
  by (induction rule: par_step.induct) auto

lemma par_steps_never_wait:
  "par_steps E c c' \<Longrightarrow> never_waits (fst c) \<and> never_waits (fst (snd c)) \<Longrightarrow>
   never_waits (fst c') \<and> never_waits (fst (snd c'))"
  by (induction rule: rtranclp_induct) (auto dest: par_step_never_waits)

text \<open>From every configuration their own actions alone lead to the end.\<close>

lemma left_finishes: "never_waits p \<Longrightarrow> \<exists>x t. par_steps E (p, q, s) (Done x, q, t)"
proof (induction p arbitrary: s)
  case (Act g m k)
  then have "par_step E (Act g m k, q, s) (k s, q, m s)" by (auto intro: par_left)
  with Act show ?case by (metis converse_rtranclp_into_rtranclp never_waits.simps(2) rangeI)
qed blast

lemma right_finishes: "never_waits q \<Longrightarrow> \<exists>y t. par_steps E (p, q, s) (p, Done y, t)"
proof (induction q arbitrary: s)
  case (Act g m k)
  then have "par_step E (p, Act g m k, s) (p, k s, m s)" by (auto intro: par_right)
  with Act show ?case by (metis converse_rtranclp_into_rtranclp never_waits.simps(2) rangeI)
qed blast

lemma both_finish:
  assumes "never_waits p" and "never_waits q"
  shows "\<exists>x y t. par_steps E (p, q, s) (Done x, Done y, t)"
  using left_finishes [OF assms(1)] right_finishes [OF assms(2)] by (meson rtranclp_trans)

text \<open>An interleaving in which the left program is cut once.\<close>

lemma right_runs:
  "unblocked q s \<Longrightarrow> par_steps E (p, q, s) (p, Done (result (alone q) s), exec (alone q) s)"
proof (induction q arbitrary: s)
  case (Act g m k)
  then have "par_step E (p, Act g m k, s) (p, k s, m s)" by (auto intro: par_right)
  with Act show ?case by (simp, metis converse_rtranclp_into_rtranclp rangeI)
qed simp

lemma left_runs:
  "unblocked p s \<Longrightarrow> par_steps E (p, q, s) (Done (result (alone p) s), q, exec (alone p) s)"
proof (induction p arbitrary: s)
  case (Act g m k)
  then have "par_step E (Act g m k, q, s) (k s, q, m s)" by (auto intro: par_left)
  with Act show ?case by (simp, metis converse_rtranclp_into_rtranclp rangeI)
qed simp

lemma par_act: "par_step E (act m k, q, s) (k (result m s), q, exec m s)"
  unfolding act_def by (rule par_left) simp

end
