(* ===== verification/Pass_Threads.thy ===== *)
theory Pass_Threads
  imports Rely_Guarantee App_Invariants
begin

text \<open>
  The pass table of \<^verbatim>\<open>sat_board.c\<close> is shared without a lock: the Bluetooth thread adds passes
  while main schedules. Here both are cut at every access to \<^verbatim>\<open>sat_passes\<close>,
  \<^verbatim>\<open>sat_passes_idx\<close> and \<^verbatim>\<open>sat_passes_count\<close>, and the rest of the system runs in between.
\<close>

section \<open>Programs\<close>

definition load_timestamp :: "u16 \<Rightarrow> ('a sat_state_scheme, u32) state" where
  "load_timestamp i = do {
     len \<leftarrow> gets (\<lambda>s. length (g_sat_passes s));
     guard_ok (unat i < len);
     gets (\<lambda>s. sp_timestamp (g_sat_passes s ! unat i))
   }"

definition store_pass :: "u16 \<Rightarrow> (sat_pass \<Rightarrow> sat_pass) \<Rightarrow> ('a sat_state_scheme, unit) state" where
  "store_pass i f = do {
     len \<leftarrow> gets (\<lambda>s. length (g_sat_passes s));
     guard_ok (unat i < len);
     modify (\<lambda>s. s\<lparr>g_sat_passes := (g_sat_passes s)[unat i := f (g_sat_passes s ! unat i)]\<rparr>)
   }"

definition sat_pass_add_thread :: "env \<Rightarrow> u32 \<Rightarrow> u16 \<Rightarrow> ('a sat_state_scheme, int) prog" where
  "sat_pass_add_thread e timestamp duration =
     (if cfg_pass_prediction e then Done 0
      else
        act (gets g_sat_passes_count) (\<lambda>count.
        if unat count \<ge> HUBBLE_NUMBER_OF_TIMESTAMPS then Done (- ENOSPC)
        else
          act (gets g_sat_passes_count) (\<lambda>i.
          act (store_pass i (sp_timestamp_update (\<lambda>_. timestamp))) (\<lambda>_.
          act (gets g_sat_passes_count) (\<lambda>i.
          act (store_pass i (sp_duration_update (\<lambda>_. duration))) (\<lambda>_.
          act (gets g_sat_passes_count) (\<lambda>count.
          act (modify (\<lambda>s. s\<lparr>g_sat_passes_count := count + 1\<rparr>)) (\<lambda>_.
          Done 0))))))))"

fun add_passes_thread :: "env \<Rightarrow> sat_pass list \<Rightarrow> ('a sat_state_scheme, unit) prog" where
  "add_passes_thread e [] = Done ()"
| "add_passes_thread e (p # ps) =
     call_then (sat_pass_add_thread e (sp_timestamp p) (sp_duration p)) (\<lambda>resp.
     if resp \<noteq> 0 then Done () else add_passes_thread e ps)"

text \<open>The \<^verbatim>\<open>while\<close> loop: whether it left with a pass, \<open>None\<close> out of fuel.\<close>

fun skip_past_thread :: "nat \<Rightarrow> u64 \<Rightarrow> ('a sat_state_scheme, bool option) prog" where
  "skip_past_thread 0 now_s = Done None"
| "skip_past_thread (Suc fuel) now_s =
     act (gets g_sat_passes_idx) (\<lambda>i.
     act (load_timestamp i) (\<lambda>timestamp.
     if ucast timestamp < now_s + 1 then
       act (gets g_sat_passes_idx) (\<lambda>i.
       act (modify (\<lambda>s. s\<lparr>g_sat_passes_idx := i + 1\<rparr>)) (\<lambda>_.
       act (gets g_sat_passes_idx) (\<lambda>idx.
       act (gets g_sat_passes_count) (\<lambda>count.
       if idx \<ge> count then Done (Some False) else skip_past_thread fuel now_s))))
     else Done (Some True)))"

text \<open>\<^verbatim>\<open>sat_schedule_next_transmission\<close> in the build that keeps a table.\<close>

definition sat_schedule_thread :: "env \<Rightarrow> nat \<Rightarrow> ('a sat_state_scheme, int option) prog" where
  "sat_schedule_thread e fuel =
     act (ask (o_time_get e) Hubble_time_get) (\<lambda>now_ms.
     act (gets g_sat_passes_idx) (\<lambda>idx.
     act (gets g_sat_passes_count) (\<lambda>count.
     if idx \<ge> count then Done (Some (- 1))
     else
       call_then (skip_past_thread fuel (now_ms div MSEC_PER_SEC)) (\<lambda>found.
       case found of
         None \<Rightarrow> Done None
       | Some False \<Rightarrow> Done (Some (- 1))
       | Some True \<Rightarrow>
           act (gets g_sat_passes_idx) (\<lambda>i.
           act (load_timestamp i) (\<lambda>timestamp.
           act (arm_sat_timer (ucast (ucast timestamp - now_ms div MSEC_PER_SEC))) (\<lambda>_.
           Done (Some 0))))))))"

section \<open>Alone, each is the operation\<close>

lemma run_load_timestamp:
  "unat i < length (g_sat_passes s) \<Longrightarrow>
   run_state (load_timestamp i) s = (sp_timestamp (g_sat_passes s ! unat i), s)"
  by (simp add: load_timestamp_def)

lemma run_store_pass:
  "unat i < length (g_sat_passes s) \<Longrightarrow> run_state (store_pass i f) s =
   ((), s\<lparr>g_sat_passes := (g_sat_passes s)[unat i := f (g_sat_passes s ! unat i)]\<rparr>)"
  by (simp add: store_pass_def)

lemma both_stored [simp]:
  "(p :: sat_pass)\<lparr>sp_timestamp := t, sp_duration := d\<rparr> = \<lparr>sp_timestamp = t, sp_duration = d\<rparr>"
  by (cases p) simp

lemma alone_pass_add:
  assumes "table_inv s"
  shows "run_state (alone (sat_pass_add_thread e t d)) s = run_state (sat_pass_add e t d) s"
proof (cases "cfg_pass_prediction e \<or> unat (g_sat_passes_count s) \<ge> HUBBLE_NUMBER_OF_TIMESTAMPS")
  case True
  then show ?thesis by (auto simp: sat_pass_add_thread_def sat_pass_add_def thread_simps)
next
  case False
  with assms have "unat (g_sat_passes_count s) < length (g_sat_passes s)" by (simp add: table_inv_def)
  with False show ?thesis
    by (simp add: sat_pass_add_thread_def sat_pass_add_def thread_simps run_store_pass)
qed

lemma alone_add_passes:
  "queue_ok e s \<Longrightarrow> run_state (alone (add_passes_thread e ps)) s =
     run_state (add_passes (sat_pass_add e) ps) s"
proof (induction ps arbitrary: s)
  case (Cons p ps)
  obtain r t where r: "run_state (sat_pass_add e (sp_timestamp p) (sp_duration p)) s = (r, t)"
    by fastforce
  have "table_inv s" using Cons.prems by (simp add: queue_ok_def)
  moreover have "queue_ok e t"
    using pass_table.add_inv [OF Cons.prems, of "sp_timestamp p" "sp_duration p"] r by simp
  ultimately show ?case
    using Cons.IH [of t] r by (simp add: thread_simps alone_pass_add)
qed simp

lemma alone_skip_past:
  "table_inv s \<Longrightarrow> g_sat_passes_idx s < g_sat_passes_count s \<Longrightarrow>
   unat (g_sat_passes_count s) \<le> n + unat (g_sat_passes_idx s) \<Longrightarrow>
   run_state (alone (skip_past_thread n now_s)) s =
     (let (i, found) = skip_past (g_sat_passes s) (g_sat_passes_count s) now_s (g_sat_passes_idx s)
      in (Some found, s\<lparr>g_sat_passes_idx := i\<rparr>))"
proof (induction n arbitrary: s)
  case 0
  then show ?case by (simp add: word_less_nat_alt)
next
  case (Suc n)
  let ?i = "g_sat_passes_idx s" and ?c = "g_sat_passes_count s"
  let ?s = "s\<lparr>g_sat_passes_idx := ?i + 1\<rparr>"
  have i: "unat (?i + 1) = Suc (unat ?i)" using unat_inc [OF Suc.prems(2)] .
  have load: "unat ?i < length (g_sat_passes s)"
    using Suc.prems(1,2) by (simp add: table_inv_def word_less_nat_alt)
  show ?case
  proof (cases "ucast (sp_timestamp (g_sat_passes s ! unat ?i)) < now_s + 1 \<and> ?i + 1 < ?c")
    case True
    with Suc.prems i have "table_inv ?s" "g_sat_passes_idx ?s < g_sat_passes_count ?s"
        "unat (g_sat_passes_count ?s) \<le> n + unat (g_sat_passes_idx ?s)"
      by (auto simp: table_inv_def)
    moreover have "\<not> ?c \<le> ?i + 1" using True by (auto simp only: not_le)
    ultimately show ?thesis
      using Suc.IH [of ?s] True
      by (subst skip_past.simps) (simp add: thread_simps run_load_timestamp [OF load] Let_def)
  next
    case False
    then show ?thesis
      by (subst skip_past.simps)
        (auto simp: thread_simps run_load_timestamp [OF load] Let_def not_le)
  qed
qed

lemma alone_schedule:
  assumes "queue_ok e s" and "HUBBLE_NUMBER_OF_TIMESTAMPS \<le> fuel"
  shows "run_state (alone (sat_schedule_thread e fuel)) s =
    run_state (sat_schedule_next_transmission e fuel) s"
proof (cases "g_sat_passes_idx s \<ge> g_sat_passes_count s")
  case True
  with assms(1) show ?thesis
    by (simp add: sat_schedule_thread_def sat_schedule_next_transmission_def thread_simps queue_ok_def)
next
  case False
  let ?s = "s\<lparr>calls := calls s @ [Hubble_time_get]\<rparr>"
  obtain i f where sk: "skip_past (g_sat_passes s) (g_sat_passes_count s) (schedule_now e s)
      (g_sat_passes_idx s) = (i, f)" by fastforce
  have t: "\<not> cfg_pass_prediction e" "table_inv ?s" "unat (g_sat_passes_count s) \<le> length (g_sat_passes s)"
    using assms(1) by (simp_all add: queue_ok_def table_inv_def)
  have "run_state (alone (skip_past_thread fuel (schedule_now e s))) ?s =
      (Some f, ?s\<lparr>g_sat_passes_idx := i\<rparr>)"
    using alone_skip_past [OF t(2), of fuel "schedule_now e s"] assms(2) False sk t(2)
    by (simp add: table_inv_def not_le)
  moreover have "f \<Longrightarrow> unat i < length (g_sat_passes s)"
    using skip_past_spec(3) [OF _ t(3) sk] False t(3) by (simp add: not_le word_less_nat_alt)
  ultimately show ?thesis
    using False t sk
    by (cases f) (simp_all add: sat_schedule_thread_def sat_schedule_next_transmission_def
        thread_simps schedule_now_def run_load_timestamp)
qed

end
