(* ===== verification/Pass_Sharing.thy ===== *)
theory Pass_Sharing
  imports Pass_Threads
begin

text \<open>
  What the two users of the pass table rely on and guarantee, and that each keeps to it: main
  only moves the index, the Bluetooth thread only appends behind the count, everything else
  leaves the table alone. So \<open>rely_guarantee\<close> is interpreted on them.
\<close>

section \<open>Relies\<close>

text \<open>The entries written so far, past or pending.\<close>

definition written :: "'a sat_state_scheme \<Rightarrow> sat_pass list" where
  "written s = take (unat (g_sat_passes_count s)) (g_sat_passes s)"

lemma pending_written: "pending s = drop (unat (g_sat_passes_idx s)) (written s)"
  by (simp add: pending_def written_def)

lemma length_written: "table_inv s \<Longrightarrow> length (written s) = unat (g_sat_passes_count s)"
  by (simp add: written_def table_inv_def)

definition call_grows :: "env \<Rightarrow> ble_state \<Rightarrow> ble_state \<Rightarrow> bool" where
  "call_grows e s t \<longleftrightarrow> (\<exists>cs. calls t = calls s @ cs) \<and> (app_ok e s \<longrightarrow> app_ok e t)"

text \<open>What main relies on, and what the Bluetooth thread guarantees.\<close>

definition table_grows :: "env \<Rightarrow> ble_state \<Rightarrow> ble_state \<Rightarrow> bool" where
  "table_grows e s t \<longleftrightarrow> call_grows e s t \<and> g_sat_passes_idx t = g_sat_passes_idx s \<and>
     (\<exists>more. written t = written s @ more)"

text \<open>What the Bluetooth thread relies on, and what main guarantees.\<close>

definition table_read :: "env \<Rightarrow> ble_state \<Rightarrow> ble_state \<Rightarrow> bool" where
  "table_read e s t \<longleftrightarrow> call_grows e s t \<and> g_sat_passes_count t = g_sat_passes_count s \<and>
     g_sat_passes t = g_sat_passes s"

definition table_untouched :: "env \<Rightarrow> ble_state \<Rightarrow> ble_state \<Rightarrow> bool" where
  "table_untouched e s t \<longleftrightarrow> table_grows e s t \<and> table_read e s t"

lemma call_grows_refl: "call_grows e s s"
  by (simp add: call_grows_def)

lemma call_grows_trans: "call_grows e s t \<Longrightarrow> call_grows e t u \<Longrightarrow> call_grows e s u"
  by (auto simp: call_grows_def)

lemma table_preorders:
  "reflp (table_grows e)" "transp (table_grows e)" "reflp (table_read e)" "transp (table_read e)"
  by (auto simp: table_grows_def table_read_def call_grows_refl intro!: reflpI transpI
      elim: call_grows_trans)

interpretation pass_sharing:
  rely_guarantee "table_grows e" "table_read e" "table_read e" "table_grows e" "table_untouched e"
  for e
  by unfold_locales (auto simp: table_preorders table_untouched_def)

section \<open>The Bluetooth thread\<close>

text \<open>It added \<open>qs\<close> to what was written in \<open>s\<close>.\<close>

definition added :: "env \<Rightarrow> ble_state \<Rightarrow> sat_pass list \<Rightarrow> ble_state \<Rightarrow> bool" where
  "added e s qs t \<longleftrightarrow> app_ok e t \<and> written t = written s @ qs"

lemma stable_added: "stable (added e s qs) (table_read e)"
  by (rule stableI) (simp add: added_def table_read_def call_grows_def written_def)

lemma written_next:
  assumes "table_inv t" and "unat (g_sat_passes_count t) < HUBBLE_NUMBER_OF_TIMESTAMPS"
  shows "written (t\<lparr>g_sat_passes_count := g_sat_passes_count t + 1\<rparr>) =
      written t @ [g_sat_passes t ! unat (g_sat_passes_count t)]"
    and "unat (g_sat_passes_count t + 1) = Suc (unat (g_sat_passes_count t))"
proof -
  show u: "unat (g_sat_passes_count t + 1) = Suc (unat (g_sat_passes_count t))"
    using assms(2) by (simp add: unat_word_ariths HUBBLE_NUMBER_OF_TIMESTAMPS_def)
  show "written (t\<lparr>g_sat_passes_count := g_sat_passes_count t + 1\<rparr>) =
      written t @ [g_sat_passes t ! unat (g_sat_passes_count t)]"
    using assms u by (simp add: written_def table_inv_def take_Suc_conv_app_nth)
qed

text \<open>The stores go behind the count, where nobody looks.\<close>

lemma store_behind:
  assumes "app_ok e t" and "g_sat_passes_count t = n" and "unat n < HUBBLE_NUMBER_OF_TIMESTAMPS"
  shows "table_grows e t (exec (store_pass n f) t)"
    and "app_ok e (exec (store_pass n f) t)" and "written (exec (store_pass n f) t) = written t"
    and "g_sat_passes_count (exec (store_pass n f) t) = n"
    and "g_sat_passes (exec (store_pass n f) t) ! unat n = f (g_sat_passes t ! unat n)"
proof -
  have "unat n < length (g_sat_passes t)" using assms(1,3) by (simp add: app_ok_defs)
  note st = run_store_pass [OF this, of f]
  have "unat n < length (g_sat_passes t)" by fact
  then show "written (exec (store_pass n f) t) = written t"
    "app_ok e (exec (store_pass n f) t)" "g_sat_passes_count (exec (store_pass n f) t) = n"
    "g_sat_passes (exec (store_pass n f) t) ! unat n = f (g_sat_passes t ! unat n)"
    using assms by (simp_all add: st written_def app_ok_defs)
  then show "table_grows e t (exec (store_pass n f) t)"
    by (simp add: st table_grows_def call_grows_def)
qed

text \<open>Between the stores, \<open>A\<close> tells what is known of the entry behind the count.\<close>

definition storing ::
    "env \<Rightarrow> ble_state \<Rightarrow> sat_pass list \<Rightarrow> u16 \<Rightarrow> (sat_pass \<Rightarrow> bool) \<Rightarrow> ble_state \<Rightarrow> bool" where
  "storing e s qs n A t \<longleftrightarrow> added e s qs t \<and> g_sat_passes_count t = n \<and>
     unat n < HUBBLE_NUMBER_OF_TIMESTAMPS \<and> A (g_sat_passes t ! unat n)"

lemma stable_storing: "stable (storing e s qs n A) (table_read e)"
  by (rule stableI)
    (auto simp: storing_def table_read_def added_def call_grows_def written_def)

lemma storing_store:
  assumes "storing e s qs n A t" and "\<And>p. A p \<Longrightarrow> B (f p)"
  shows "table_grows e t (exec (store_pass n f) t)" and "storing e s qs n B (exec (store_pass n f) t)"
  using assms store_behind [of e t n f] by (simp_all add: storing_def added_def)

lemma storing_count:
  assumes "storing e s qs n (\<lambda>p. p = q) t"
  shows "table_grows e t (t\<lparr>g_sat_passes_count := n + 1\<rparr>)"
    and "added e s (qs @ [q]) (t\<lparr>g_sat_passes_count := n + 1\<rparr>)"
  using assms written_next [of t]
  by (auto simp: storing_def added_def table_grows_def call_grows_def app_ok_defs
      word_le_nat_alt)

lemma table_grows_refl [simp]: "table_grows e s s" and table_read_refl [simp]: "table_read e s s"
  using table_preorders(1,3) by (auto dest: reflpD)

lemma rg_pass_add:
  assumes "added e s qs t" and "\<not> cfg_pass_prediction e"
  shows "rg (table_read e) (table_grows e)
    (\<lambda>r u. if r = 0 then added e s (qs @ [\<lparr>sp_timestamp = ts, sp_duration = d\<rparr>]) u
           else r = - ENOSPC \<and> added e s qs u \<and> queue_room u = 0)
    (sat_pass_add_thread e ts d) t"
    (is "rg ?R ?G ?Q _ _")
proof -
  let ?p = "\<lparr>sp_timestamp = ts, sp_duration = d\<rparr>"
  have full: "rg ?R ?G ?Q (Done (- ENOSPC)) u"
    if "added e s qs u" "HUBBLE_NUMBER_OF_TIMESTAMPS \<le> unat (g_sat_passes_count u)" for u
  proof (rule rg_DoneI [OF stableI])
    show "?Q (- ENOSPC) u" using that by (simp add: ENOSPC_def queue_room_def)
    show "?Q (- ENOSPC) w" if "?Q (- ENOSPC) v" "?R v w" for v w
      using that stable_added [of e s qs]
      by (auto simp: ENOSPC_def stable_def table_read_def queue_room_def)
  qed
  have full_ok: "rg ?R ?G ?Q (Done 0) u" if "added e s (qs @ [?p]) u" for u
    using that stable_added [of e s "qs @ [?p]"] by (auto simp: stable_def)
  have store: "rg ?R ?G ?Q (act (gets g_sat_passes_count) (\<lambda>i. act (store_pass i f) (\<lambda>_. p))) u"
    if "storing e s qs n A u" "\<And>q. A q \<Longrightarrow> B (f q)"
      "\<And>v. storing e s qs n B v \<Longrightarrow> rg ?R ?G ?Q p v" for n A B f p u
  proof (rule rg_getsI [OF stable_storing that(1)])
    fix v assume v: "storing e s qs n A v"
    then have n: "g_sat_passes_count v = n" by (simp add: storing_def)
    show "rg ?R ?G ?Q (act (store_pass (g_sat_passes_count v) f) (\<lambda>_. p)) v"
      unfolding n by (rule rg_actI [OF stable_storing v]) (blast intro: storing_store that(2,3))+
  qed simp
  have count: "rg ?R ?G ?Q (act (gets g_sat_passes_count) (\<lambda>count.
      act (modify (\<lambda>s. s\<lparr>g_sat_passes_count := count + 1\<rparr>)) (\<lambda>_. Done 0))) u"
    if "storing e s qs n (\<lambda>p. p = ?p) u" for n u
  proof (rule rg_getsI [OF stable_storing that])
    fix v assume v: "storing e s qs n (\<lambda>p. p = ?p) v"
    then have n: "g_sat_passes_count v = n" by (simp add: storing_def)
    show "rg ?R ?G ?Q (act (modify (\<lambda>s. s\<lparr>g_sat_passes_count := g_sat_passes_count v + 1\<rparr>)) (\<lambda>_. Done 0)) v"
      unfolding n by (rule rg_actI [OF stable_storing v])
        (simp_all add: storing_count full_ok del: rg.simps)
  qed simp
  have room: "storing e s qs (g_sat_passes_count u) (\<lambda>_. True) u"
    if "added e s qs u" "\<not> HUBBLE_NUMBER_OF_TIMESTAMPS \<le> unat (g_sat_passes_count u)" for u
    using that by (simp add: storing_def)
  show ?thesis
    unfolding sat_pass_add_thread_def if_not_P [OF assms(2)]
  proof (rule rg_getsI [OF stable_added assms(1)])
    fix u assume u: "added e s qs u"
    show "rg ?R ?G ?Q (if HUBBLE_NUMBER_OF_TIMESTAMPS \<le> unat (g_sat_passes_count u) then Done (- ENOSPC)
      else act (gets g_sat_passes_count) (\<lambda>i.
        act (store_pass i (sp_timestamp_update (\<lambda>_. ts))) (\<lambda>_.
        act (gets g_sat_passes_count) (\<lambda>i.
        act (store_pass i (sp_duration_update (\<lambda>_. d))) (\<lambda>_.
        act (gets g_sat_passes_count) (\<lambda>count.
        act (modify (\<lambda>s. s\<lparr>g_sat_passes_count := count + 1\<rparr>)) (\<lambda>_. Done 0))))))) u"
    proof (cases "HUBBLE_NUMBER_OF_TIMESTAMPS \<le> unat (g_sat_passes_count u)")
      case False
      show ?thesis
        unfolding if_not_P [OF False]
      proof (rule store [OF room [OF u False], where B = "\<lambda>p. sp_timestamp p = ts"])
        fix v n assume "storing e s qs n (\<lambda>p. sp_timestamp p = ts) v"
        then show "rg ?R ?G ?Q (act (gets g_sat_passes_count) (\<lambda>i.
            act (store_pass i (sp_duration_update (\<lambda>_. d))) (\<lambda>_.
            act (gets g_sat_passes_count) (\<lambda>count.
            act (modify (\<lambda>s. s\<lparr>g_sat_passes_count := count + 1\<rparr>)) (\<lambda>_. Done 0))))) v"
          by (rule store [where B = "\<lambda>p. p = ?p"]) (erule count | simp)+
      qed simp
    qed (use full u in simp)
  qed simp
qed


text \<open>The whole table of a request, as far as there is room.\<close>

lemma room_written: "app_ok e t \<Longrightarrow> queue_room t = HUBBLE_NUMBER_OF_TIMESTAMPS - length (written t)"
  by (simp add: app_ok_def length_written queue_room_def)

lemma room_added:
  "app_ok e s \<Longrightarrow> added e s qs u \<Longrightarrow> queue_room u = queue_room s - length qs"
  and fits_added: "app_ok e s \<Longrightarrow> added e s qs u \<Longrightarrow> length qs \<le> queue_room s"
  using room_written [of e s] room_written [of e u] length_written [of u] length_written [of s]
  by (auto simp: added_def app_ok_defs)

lemma rg_add_passes:
  "app_ok e s \<Longrightarrow> added e s qs t \<Longrightarrow> \<not> cfg_pass_prediction e \<Longrightarrow>
   rg (table_read e) (table_grows e) (\<lambda>_. added e s (qs @ take (queue_room s - length qs) ps))
     (add_passes_thread e ps) t"
proof (induction ps arbitrary: qs t)
  case Nil
  then show ?case using stable_added [of e s qs] by (auto simp: stable_def)
next
  case (Cons p ps)
  let ?Q = "\<lambda>r u. if r = 0 then added e s (qs @ [p]) u
      else r = - ENOSPC \<and> added e s qs u \<and> queue_room u = 0"
  have same: "\<lparr>sp_timestamp = sp_timestamp p, sp_duration = sp_duration p\<rparr> = p" by (cases p) simp
  have 1: "rg (table_read e) (table_grows e) ?Q
      (sat_pass_add_thread e (sp_timestamp p) (sp_duration p)) t"
    using rg_pass_add [OF Cons.prems(2,3), of "sp_timestamp p" "sp_duration p"]
    by (simp only: same)
  show ?case
    unfolding add_passes_thread.simps
  proof (rule rg_call_then [OF table_preorders(4) 1 _ table_preorders(3)])
    fix r u assume q: "?Q r u"
    show "rg (table_read e) (table_grows e)
        (\<lambda>_. added e s (qs @ take (queue_room s - length qs) (p # ps)))
        (if r \<noteq> 0 then Done () else add_passes_thread e ps) u"
    proof (cases "r = 0")
      case True
      with q have u: "added e s (qs @ [p]) u" by simp
      have "queue_room s - length qs = Suc (queue_room s - Suc (length qs))"
        using fits_added [OF Cons.prems(1) u] by simp
      with True Cons.IH [OF Cons.prems(1) u Cons.prems(3)] show ?thesis by simp
    next
      case False
      with q room_added [OF Cons.prems(1), of qs u] stable_added [of e s qs] show ?thesis
        by (auto simp: stable_def)
    qed
  qed
qed

end
