(* ===== verification/Pass_Race.thy ===== *)
theory Pass_Race
  imports Pass_Sharing
begin

section \<open>Main\<close>

text \<open>The log \<open>h\<close> in which the SDK was asked for the time, and the time in seconds it gave.\<close>

definition now_at :: "env \<Rightarrow> call list \<Rightarrow> u64" where
  "now_at e h = o_time_get e h div MSEC_PER_SEC"

definition asked_time :: "ble_state \<Rightarrow> call list \<Rightarrow> ble_state \<Rightarrow> bool" where
  "asked_time s h t \<longleftrightarrow> (\<exists>cs ds. h = calls s @ cs @ [Hubble_time_get] \<and> calls t = h @ ds)"

text \<open>The index is \<open>i\<close>, and all before it are past.\<close>

definition skipping :: "env \<Rightarrow> ble_state \<Rightarrow> call list \<Rightarrow> u16 \<Rightarrow> ble_state \<Rightarrow> bool" where
  "skipping e s h i t \<longleftrightarrow> app_ok e t \<and> asked_time s h t \<and> (\<exists>qs. written t = written s @ qs) \<and>
     g_sat_passes_idx t = i \<and> g_sat_passes_idx s \<le> i \<and>
     (\<forall>j. unat (g_sat_passes_idx s) \<le> j \<and> j < unat i \<longrightarrow> is_past (now_at e h) (written t ! j))"

definition looking :: "env \<Rightarrow> ble_state \<Rightarrow> call list \<Rightarrow> u16 \<Rightarrow> (sat_pass \<Rightarrow> bool) \<Rightarrow> ble_state \<Rightarrow> bool" where
  "looking e s h i A t \<longleftrightarrow> skipping e s h i t \<and> i < g_sat_passes_count t \<and> A (written t ! unat i)"

text \<open>
  Scheduling as one action: it took place when \<open>qs\<close> had been added to the queue of \<open>s\<close>, and
  \<open>more\<close> came after.
\<close>

definition armed_for :: "env \<Rightarrow> call list \<Rightarrow> sat_pass \<Rightarrow> ble_state \<Rightarrow> bool" where
  "armed_for e h p t \<longleftrightarrow> Timer_start Sat_timer
     (unat (ucast (ucast (sp_timestamp p) - now_at e h) :: u32)) 0 \<in> set (drop (length h) (calls t))"

definition scheduled :: "env \<Rightarrow> ble_state \<Rightarrow> call list \<Rightarrow> int option \<Rightarrow> ble_state \<Rightarrow> bool" where
  "scheduled e s h r t \<longleftrightarrow> app_ok e t \<and> asked_time s h t \<and>
     (\<exists>qs more. written t = written s @ qs @ more \<and>
       (let q = dropWhile (is_past (now_at e h)) (pending s @ qs) in
        pending t = q @ more \<and> r = Some (if q = [] then - 1 else 0) \<and>
        (q \<noteq> [] \<longrightarrow> armed_for e h (hd q) t)))"

lemma scheduledI:
  assumes "app_ok e t" and "asked_time s h t" and "written t = written s @ qs"
    and "dropWhile (is_past (now_at e h)) (pending s @ qs) = pending t"
    and "r = Some (if pending t = [] then - 1 else 0)"
    and "pending t \<noteq> [] \<Longrightarrow> armed_for e h (hd (pending t)) t"
  shows "scheduled e s h r t"
  unfolding scheduled_def Let_def
  by (intro conjI assms(1,2), rule exI [of _ qs], rule exI [of _ "[]"])
    (use assms(3-6) in \<open>auto simp only: append_Nil2 simp_thms\<close>)

lemma asked_time_grows: "asked_time s h t \<Longrightarrow> call_grows e t u \<Longrightarrow> asked_time s h u"
  unfolding asked_time_def call_grows_def by (metis append.assoc)

lemma written_nth: "table_grows e t u \<Longrightarrow> j < length (written t) \<Longrightarrow> written u ! j = written t ! j"
  by (auto simp: table_grows_def nth_append)

lemma idx_bound: "app_ok e t \<Longrightarrow> unat (g_sat_passes_idx t) \<le> length (written t)"
  by (simp add: app_ok_def length_written) (simp add: table_inv_def word_le_nat_alt)

lemma stable_skipping: "stable (skipping e s h i) (table_grows e)"
proof (rule stableI)
  fix t u
  assume a: "skipping e s h i t" and g: "table_grows e t u"
  have "unat i \<le> length (written t)" using a idx_bound [of e t] by (simp add: skipping_def)
  with a g written_nth [OF g] asked_time_grows [of s h t e u] show "skipping e s h i u"
    by (auto simp: skipping_def table_grows_def call_grows_def)
qed

lemma stable_looking: "stable (looking e s h i A) (table_grows e)"
proof (rule stableI)
  fix t u
  assume a: "looking e s h i A t" and g: "table_grows e t u"
  then have sk: "skipping e s h i u" using stable_skipping by (auto simp: looking_def stable_def)
  have "unat i < length (written t)"
    using a by (simp add: looking_def skipping_def app_ok_def length_written word_less_nat_alt)
  moreover have "length (written t) \<le> unat (g_sat_passes_count u)"
    using g sk length_written [of u] by (auto simp: table_grows_def skipping_def app_ok_def)
  ultimately show "looking e s h i A u"
    using a sk written_nth [OF g, of "unat i"] by (simp add: looking_def word_less_nat_alt)
qed

lemma stable_scheduled: "stable (scheduled e s h r) (table_grows e)"
proof (rule stableI)
  fix t u
  assume a: "scheduled e s h r t" and g: "table_grows e t u"
  obtain qs more where m: "written t = written s @ qs @ more"
      "pending t = dropWhile (is_past (now_at e h)) (pending s @ qs) @ more"
    using a by (auto simp: scheduled_def Let_def)
  obtain cs ds where c: "calls t = h @ cs" "calls u = calls t @ ds"
    using a g by (auto simp: scheduled_def asked_time_def table_grows_def call_grows_def)
  obtain new where n: "written u = written t @ new" "g_sat_passes_idx u = g_sat_passes_idx t"
    using g by (auto simp: table_grows_def)
  have "pending u = pending t @ new"
    using a n idx_bound [of e t] by (simp add: pending_written scheduled_def)
  moreover have "armed_for e h p t \<Longrightarrow> armed_for e h p u" for p
    using c by (auto simp: armed_for_def)
  moreover have "app_ok e u" "asked_time s h u"
    using a g asked_time_grows [of s h t e u] by (auto simp: scheduled_def table_grows_def call_grows_def)
  ultimately show "scheduled e s h r u"
    using a n(1) unfolding scheduled_def Let_def by (metis append.assoc)
qed

lemma dropWhile_drop:
  "i \<le> j \<Longrightarrow> j \<le> length xs \<Longrightarrow> (\<And>k. i \<le> k \<Longrightarrow> k < j \<Longrightarrow> P (xs ! k)) \<Longrightarrow>
   j = length xs \<or> \<not> P (xs ! j) \<Longrightarrow> dropWhile P (drop i xs) = drop j xs"
proof (induction "j - i" arbitrary: i)
  case 0
  then show ?case
    by (cases "i < length xs") (simp_all add: Cons_nth_drop_Suc [symmetric, of i xs])
next
  case (Suc n)
  then have "drop i xs = xs ! i # drop (Suc i) xs" by (simp add: Cons_nth_drop_Suc)
  moreover have "P (xs ! i)" using Suc.prems(3) [of i] Suc.hyps(2) by simp
  ultimately show ?case using Suc.hyps(1) [of "Suc i"] Suc.hyps(2) Suc.prems by simp
qed

text \<open>When the loop stops, the rest of the table is what one action would leave.\<close>

lemma loop_stops:
  assumes "app_ok e s" and "skipping e s h i t" and "written t = written s @ qs"
    and "i = g_sat_passes_count t \<or> \<not> is_past (now_at e h) (written t ! unat i)"
  shows "dropWhile (is_past (now_at e h)) (pending s @ qs) = pending t"
proof -
  have 1: "pending s @ qs = drop (unat (g_sat_passes_idx s)) (written t)"
    using idx_bound [OF assms(1)] assms(3) by (simp add: pending_written)
  have 2: "length (written t) = unat (g_sat_passes_count t)" "unat i \<le> length (written t)"
    using assms(2) idx_bound [of e t] by (simp_all add: skipping_def app_ok_def length_written)
  show ?thesis
    unfolding 1
    by (subst dropWhile_drop [where j = "unat i"])
      (use assms(2,4) 2 in \<open>auto simp: skipping_def word_le_nat_alt pending_written\<close>)
qed

lemma scheduled_none:
  assumes "app_ok e s" and "skipping e s h i t" and "i \<ge> g_sat_passes_count t"
  shows "scheduled e s h (Some (- 1)) t"
proof -
  obtain qs where qs: "written t = written s @ qs" using assms(2) by (auto simp: skipping_def)
  have "i = g_sat_passes_count t"
    using assms(2,3) by (auto simp: skipping_def app_ok_defs)
  moreover from this have "pending t = []"
    using assms(2) length_written [of t] by (auto simp: skipping_def app_ok_def pending_written)
  moreover have "dropWhile (is_past (now_at e h)) (pending s @ qs) = pending t"
    by (rule loop_stops [OF assms(1,2) qs]) (use calculation(1) in simp)
  ultimately show ?thesis
    using assms(2) qs by (intro scheduledI) (auto simp only: skipping_def simp_thms if_True)
qed


text \<open>The steps of the loop.\<close>

lemma load_looking:
  assumes "looking e s h i A t"
  shows "exec (load_timestamp i) t = t"
    and "result (load_timestamp i) t = sp_timestamp (written t ! unat i)"
proof -
  have "unat i < length (written t)"
    using assms by (simp add: looking_def skipping_def app_ok_def length_written word_less_nat_alt)
  then have "unat i < length (g_sat_passes t)" "written t ! unat i = g_sat_passes t ! unat i"
    by (simp_all add: written_def)
  then show "exec (load_timestamp i) t = t"
    "result (load_timestamp i) t = sp_timestamp (written t ! unat i)"
    by (simp_all add: run_load_timestamp)
qed

lemma skip_one:
  assumes "looking e s h i (is_past (now_at e h)) t"
  shows "table_read e t (t\<lparr>g_sat_passes_idx := i + 1\<rparr>)"
    and "skipping e s h (i + 1) (t\<lparr>g_sat_passes_idx := i + 1\<rparr>)"
    and "unat (i + 1) = Suc (unat i)"
proof -
  have i: "i < g_sat_passes_count t" and sk: "skipping e s h i t"
    and p: "is_past (now_at e h) (written t ! unat i)"
    using assms by (simp_all add: looking_def)
  show u: "unat (i + 1) = Suc (unat i)" using unat_inc [OF i] .
  have ok: "app_ok e (t\<lparr>g_sat_passes_idx := i + 1\<rparr>)"
    using sk i u by (simp add: skipping_def app_ok_defs word_le_nat_alt word_less_nat_alt)
  then show "table_read e t (t\<lparr>g_sat_passes_idx := i + 1\<rparr>)"
    by (simp add: table_read_def call_grows_def)
  show "skipping e s h (i + 1) (t\<lparr>g_sat_passes_idx := i + 1\<rparr>)"
    using sk ok p u
    by (auto simp: skipping_def asked_time_def written_def word_le_nat_alt less_Suc_eq)
qed

lemma rg_skip_past:
  assumes "app_ok e s"
  shows "looking e s h i (\<lambda>_. True) t \<Longrightarrow> HUBBLE_NUMBER_OF_TIMESTAMPS \<le> n + unat i \<Longrightarrow>
    rg (table_grows e) (table_read e)
      (\<lambda>r u. case r of
         Some True \<Rightarrow> (\<exists>i. looking e s h i (\<lambda>p. \<not> is_past (now_at e h) p) u)
       | Some False \<Rightarrow> scheduled e s h (Some (- 1)) u
       | None \<Rightarrow> False)
      (skip_past_thread n (now_at e h)) t"
    (is "_ \<Longrightarrow> _ \<Longrightarrow> rg ?R ?G ?Q _ _")
proof (induction n arbitrary: i t)
  case 0
  then show ?case
    by (auto simp: looking_def skipping_def app_ok_defs word_less_nat_alt)
next
  case (Suc n)
  let ?past = "is_past (now_at e h)"
  have found: "rg ?R ?G ?Q (Done (Some True)) u"
    if "looking e s h i (\<lambda>p. \<not> ?past p) u" for u
    using that by (simp, blast intro: stableD [OF stable_looking])
  have ended: "rg ?R ?G ?Q (Done (Some False)) u" if "scheduled e s h (Some (- 1)) u" for u
    using that by (simp, blast intro: stableD [OF stable_scheduled])
  have count: "rg ?R ?G ?Q (act (gets g_sat_passes_idx) (\<lambda>idx. act (gets g_sat_passes_count) (\<lambda>count.
      if idx \<ge> count then Done (Some False) else skip_past_thread n (now_at e h)))) u"
    if u: "skipping e s h (i + 1) u" and i: "unat (i + 1) = Suc (unat i)" for u
  proof (rule rg_getsI [OF stable_skipping u])
    fix v assume v: "skipping e s h (i + 1) v"
    then have idx: "g_sat_passes_idx v = i + 1" by (simp add: skipping_def)
    show "rg ?R ?G ?Q (act (gets g_sat_passes_count) (\<lambda>count.
        if g_sat_passes_idx v \<ge> count then Done (Some False) else skip_past_thread n (now_at e h))) v"
      unfolding idx
    proof (rule rg_getsI [OF stable_skipping v])
      fix w assume w: "skipping e s h (i + 1) w"
      show "rg ?R ?G ?Q (if i + 1 \<ge> g_sat_passes_count w then Done (Some False)
          else skip_past_thread n (now_at e h)) w"
      proof (cases "i + 1 \<ge> g_sat_passes_count w")
        case True
        with ended [OF scheduled_none [OF assms w]] show ?thesis by (simp only: if_True)
      next
        case False
        then have "looking e s h (i + 1) (\<lambda>_. True) w"
          using w by (simp add: looking_def not_le [symmetric] del: not_le)
        with Suc.IH [of "i + 1" w] Suc.prems(2) i False show ?thesis by (simp only: if_False)
      qed
    qed simp
  qed simp
  have skip: "rg ?R ?G ?Q (act (gets g_sat_passes_idx) (\<lambda>i.
      act (modify (\<lambda>s. s\<lparr>g_sat_passes_idx := i + 1\<rparr>)) (\<lambda>_.
      act (gets g_sat_passes_idx) (\<lambda>idx. act (gets g_sat_passes_count) (\<lambda>count.
      if idx \<ge> count then Done (Some False) else skip_past_thread n (now_at e h)))))) u"
    if u: "looking e s h i ?past u" for u
  proof (rule rg_getsI [OF stable_looking u])
    fix v assume v: "looking e s h i ?past v"
    then have idx: "g_sat_passes_idx v = i" by (simp add: looking_def skipping_def)
    show "rg ?R ?G ?Q (act (modify (\<lambda>s. s\<lparr>g_sat_passes_idx := g_sat_passes_idx v + 1\<rparr>)) (\<lambda>_.
        act (gets g_sat_passes_idx) (\<lambda>idx. act (gets g_sat_passes_count) (\<lambda>count.
        if idx \<ge> count then Done (Some False) else skip_past_thread n (now_at e h))))) v"
      unfolding idx
    proof (rule rg_actI [OF stable_looking v])
      fix w assume "looking e s h i ?past w"
      note one = skip_one [OF this]
      show "?G w (exec (modify (\<lambda>s. s\<lparr>g_sat_passes_idx := i + 1\<rparr>)) w)" using one(1) by simp
      show "rg ?R ?G ?Q (act (gets g_sat_passes_idx) (\<lambda>idx. act (gets g_sat_passes_count) (\<lambda>count.
          if idx \<ge> count then Done (Some False) else skip_past_thread n (now_at e h))))
          (exec (modify (\<lambda>s. s\<lparr>g_sat_passes_idx := i + 1\<rparr>)) w)"
        using count one(2,3) by simp
    qed
  qed simp
  show ?case
    unfolding skip_past_thread.simps
  proof (rule rg_getsI [OF stable_looking Suc.prems(1)])
    fix v assume v: "looking e s h i (\<lambda>_. True) v"
    then have idx: "g_sat_passes_idx v = i" by (simp add: looking_def skipping_def)
    let ?k = "\<lambda>timestamp :: u32. if ucast timestamp < now_at e h + 1 then
       act (gets g_sat_passes_idx) (\<lambda>i.
       act (modify (\<lambda>s. s\<lparr>g_sat_passes_idx := i + 1\<rparr>)) (\<lambda>_.
       act (gets g_sat_passes_idx) (\<lambda>idx.
       act (gets g_sat_passes_count) (\<lambda>count.
       if idx \<ge> count then Done (Some False) else skip_past_thread n (now_at e h)))))
     else Done (Some True)"
    show "rg ?R ?G ?Q (act (load_timestamp (g_sat_passes_idx v)) ?k) v"
      unfolding idx
    proof (rule rg_actI [OF stable_looking v])
      fix w assume w: "looking e s h i (\<lambda>_. True) w"
      note load = load_looking [OF w]
      show "?G w (exec (load_timestamp i) w)" by (simp add: load)
      show "rg ?R ?G ?Q (?k (result (load_timestamp i) w)) (exec (load_timestamp i) w)"
      proof (cases "?past (written w ! unat i)")
        case True
        with w have "looking e s h i ?past w" by (simp add: looking_def)
        with skip True show ?thesis unfolding load is_past_def by (simp only: if_True)
      next
        case False
        with w have "looking e s h i (\<lambda>p. \<not> ?past p) w" by (simp add: looking_def)
        with found False show ?thesis unfolding load is_past_def by (simp only: if_False)
      qed
    qed
  qed simp
qed


text \<open>The whole call.\<close>

definition started :: "env \<Rightarrow> ble_state \<Rightarrow> ble_state \<Rightarrow> bool" where
  "started e s t \<longleftrightarrow> app_ok e t \<and> table_grows e s t"

lemma stable_started: "stable (started e s) (table_grows e)"
  using table_preorders(2) [of e]
  by (auto simp: stable_def started_def table_grows_def call_grows_def dest: transpD)

lemma started_asks:
  assumes "started e s t"
  defines "h \<equiv> calls t @ [Hubble_time_get]"
  shows "table_read e t (t\<lparr>calls := h\<rparr>)"
    and "skipping e s h (g_sat_passes_idx s) (t\<lparr>calls := h\<rparr>)"
  using assms(1)
  by (auto simp: h_def started_def table_grows_def call_grows_def table_read_def skipping_def
      asked_time_def written_def app_ok_defs)

lemma scheduled_armed:
  assumes "app_ok e s" and "looking e s h i (\<lambda>p. \<not> is_past (now_at e h) p \<and> sp_timestamp p = ts) t"
  defines "m \<equiv> arm_sat_timer (ucast (ucast ts - now_at e h))"
  shows "table_read e t (exec m t)" and "scheduled e s h (Some 0) (exec m t)"
proof -
  let ?u = "exec m t"
  obtain qs where qs: "written t = written s @ qs" and sk: "skipping e s h i t"
    using assms(2) by (auto simp: looking_def skipping_def)
  have i: "unat i < length (written t)" "g_sat_passes_idx t = i"
    using assms(2) by (auto simp: looking_def skipping_def app_ok_def length_written word_less_nat_alt)
  then have hd: "pending t \<noteq> []" "hd (pending t) = written t ! unat i"
    by (simp_all add: pending_written hd_drop_conv_nth)
  have q: "dropWhile (is_past (now_at e h)) (pending s @ qs) = pending t"
    by (rule loop_stops [OF assms(1) sk qs]) (use assms(2) in \<open>simp add: looking_def\<close>)
  have u: "app_ok e ?u" "written ?u = written t" "pending ?u = pending t" "asked_time s h ?u"
    using sk by (auto simp: m_def arm_sat_timer_def skipping_def app_ok_defs written_def pending_def
        asked_time_def)
  have "armed_for e h (hd (pending t)) ?u"
    using assms(2) sk hd(2)
    by (auto simp: armed_for_def m_def arm_sat_timer_def looking_def skipping_def asked_time_def)
  with u q qs hd(1) show "scheduled e s h (Some 0) ?u"
    by (intro scheduledI) (simp_all only: simp_thms if_False)
  show "table_read e t ?u"
    using u(1) by (auto simp: table_read_def call_grows_def m_def arm_sat_timer_def)
qed

lemma rg_arm:
  assumes "app_ok e s" and "looking e s h i (\<lambda>p. \<not> is_past (now_at e h) p) t"
  shows "rg (table_grows e) (table_read e) (scheduled e s h)
    (act (gets g_sat_passes_idx) (\<lambda>i. act (load_timestamp i) (\<lambda>timestamp.
     act (arm_sat_timer (ucast (ucast timestamp - now_at e h))) (\<lambda>_. Done (Some 0))))) t"
    (is "rg ?R ?G ?Q _ _")
proof (rule rg_getsI [OF stable_looking assms(2)])
  fix u assume u: "looking e s h i (\<lambda>p. \<not> is_past (now_at e h) p) u"
  then have idx: "g_sat_passes_idx u = i" by (simp add: looking_def skipping_def)
  show "rg ?R ?G ?Q (act (load_timestamp (g_sat_passes_idx u)) (\<lambda>timestamp.
     act (arm_sat_timer (ucast (ucast timestamp - now_at e h))) (\<lambda>_. Done (Some 0)))) u"
    unfolding idx
  proof (rule rg_actI [OF stable_looking u])
    fix v assume v: "looking e s h i (\<lambda>p. \<not> is_past (now_at e h) p) v"
    note load = load_looking [OF v]
    show "?G v (exec (load_timestamp i) v)" by (simp add: load)
    have l: "looking e s h i (\<lambda>p. \<not> is_past (now_at e h) p \<and>
        sp_timestamp p = sp_timestamp (written v ! unat i)) v"
      using v by (simp add: looking_def)
    show "rg ?R ?G ?Q (act (arm_sat_timer (ucast (ucast (result (load_timestamp i) v) - now_at e h)))
        (\<lambda>_. Done (Some 0))) (exec (load_timestamp i) v)"
      unfolding load
      by (rule rg_actI [OF stable_looking l], rule scheduled_armed(1) [OF assms(1)], assumption,
          rule rg_DoneI [OF stable_scheduled], rule scheduled_armed(2) [OF assms(1)])
  qed
qed simp

lemma rg_schedule:
  assumes "app_ok e s" and "HUBBLE_NUMBER_OF_TIMESTAMPS \<le> fuel"
  shows "rg (table_grows e) (table_read e) (\<lambda>r u. \<exists>h. scheduled e s h r u)
    (sat_schedule_thread e fuel) s"
    (is "rg ?R ?G ?Q _ _")
proof -
  have "started e s s" using assms(1) by (simp add: started_def)
  then show ?thesis
    unfolding sat_schedule_thread_def
  proof (rule rg_actI [OF stable_started])
    fix t assume t: "started e s t"
    define h where "h = calls t @ [Hubble_time_get]"
    let ?t = "t\<lparr>calls := h\<rparr>" and ?i = "g_sat_passes_idx s"
    let ?arm = "\<lambda>now_ms. act (gets g_sat_passes_idx) (\<lambda>i. act (load_timestamp i) (\<lambda>timestamp.
        act (arm_sat_timer (ucast (ucast timestamp - now_ms div MSEC_PER_SEC))) (\<lambda>_. Done (Some 0))))"
    let ?rest = "\<lambda>now_ms. call_then (skip_past_thread fuel (now_ms div MSEC_PER_SEC)) (\<lambda>found.
        case found of None \<Rightarrow> Done None | Some False \<Rightarrow> Done (Some (- 1)) | Some True \<Rightarrow> ?arm now_ms)"
    let ?look = "\<lambda>now_ms. act (gets g_sat_passes_idx) (\<lambda>idx. act (gets g_sat_passes_count) (\<lambda>count.
        if idx \<ge> count then Done (Some (- 1)) else ?rest now_ms))"
    note ask = started_asks [OF t, folded h_def]
    have run: "run_state (ask (o_time_get e) Hubble_time_get) t = (o_time_get e h, ?t)"
      by (simp add: h_def)
    show "?G t (exec (ask (o_time_get e) Hubble_time_get) t)" unfolding run snd_conv by (rule ask(1))
    have none: "rg ?R ?G ?Q (Done (Some (- 1))) u" if "scheduled e s h (Some (- 1)) u" for u
      using that by (simp, blast intro: stableD [OF stable_scheduled])
    have arm: "rg ?R ?G ?Q (?arm (o_time_get e h)) u"
      if "looking e s h i (\<lambda>p. \<not> is_past (now_at e h) p) u" for i u
      by (rule rg_post [OF rg_arm [OF assms(1) that, unfolded now_at_def]]) blast
    have rest: "rg ?R ?G ?Q (?rest (o_time_get e h)) u" if u: "looking e s h ?i (\<lambda>_. True) u" for u
    proof (rule rg_call_then [OF table_preorders(2)
          rg_skip_past [OF assms(1) u, of fuel, unfolded now_at_def] _ table_preorders(1)])
      fix found v
      assume "case found of Some True \<Rightarrow> \<exists>i. looking e s h i (\<lambda>p. \<not> is_past (o_time_get e h div MSEC_PER_SEC) p) v
        | Some False \<Rightarrow> scheduled e s h (Some (- 1)) v | None \<Rightarrow> False"
      then show "rg ?R ?G ?Q (case found of None \<Rightarrow> Done None | Some False \<Rightarrow> Done (Some (- 1))
          | Some True \<Rightarrow> ?arm (o_time_get e h)) v"
        using none arm by (auto simp: now_at_def split: option.splits bool.splits simp del: rg.simps rg_act)
    qed (use assms(2) in simp)
    show "rg ?R ?G ?Q (?look (result (ask (o_time_get e) Hubble_time_get) t))
        (exec (ask (o_time_get e) Hubble_time_get) t)"
      unfolding run fst_conv snd_conv
    proof (rule rg_getsI [OF stable_skipping ask(2)])
      fix u assume u: "skipping e s h ?i u"
      then have idx: "g_sat_passes_idx u = ?i" by (simp add: skipping_def)
      show "rg ?R ?G ?Q (act (gets g_sat_passes_count) (\<lambda>count.
          if g_sat_passes_idx u \<ge> count then Done (Some (- 1)) else ?rest (o_time_get e h))) u"
        unfolding idx
      proof (rule rg_getsI [OF stable_skipping u])
        fix v assume v: "skipping e s h ?i v"
        show "rg ?R ?G ?Q (if ?i \<ge> g_sat_passes_count v then Done (Some (- 1))
            else ?rest (o_time_get e h)) v"
        proof (cases "?i \<ge> g_sat_passes_count v")
          case True
          with none scheduled_none [OF assms(1) v] show ?thesis by (simp only: if_True)
        next
          case False
          with v have "looking e s h ?i (\<lambda>_. True) v"
            by (simp add: looking_def not_le [symmetric] del: not_le)
          with rest False show ?thesis by (simp only: if_False)
        qed
      qed simp
    qed simp
  qed
qed

end
