(* ===== verification/Pass_Others.thy ===== *)
theory Pass_Others
  imports Pass_Race
begin

section \<open>Everything else\<close>

text \<open>The value of the table's variables.\<close>

definition table_is :: "u16 \<times> u16 \<times> sat_pass list \<Rightarrow> 'a sat_state_scheme \<Rightarrow> bool" where
  "table_is c s \<longleftrightarrow> (g_sat_passes_idx s, g_sat_passes_count s, g_sat_passes s) = c"

lemma log_free_table: "log_free (table_is c)"
  by (rule log_freeI) (simp add: table_is_def)

lemma keeps_table_guard: "keeps (table_is c) (guard_ok b)"
  by (simp add: keeps_def table_is_def)

lemma keeps_table_print: "keeps (table_is c) (shell_print f as)"
  unfolding shell_print_def by (intro keeps_intros log_free_table)

lemma keeps_table_argv: "keeps (table_is c) (argv_text argv i)"
  unfolding argv_text_def by (intro keeps_intros keeps_table_guard)

lemmas keeps_table = log_free_table keeps_table_guard keeps_table_print keeps_table_argv

lemma keeps_table_init: "keeps (table_is c) (ble_init e)"
  and keeps_table_adv_stop: "keeps (table_is c) ble_adv_stop"
  unfolding ble_init_def ble_adv_stop_def by (intro keeps_intros keeps_table)+

lemma keeps_table_adv_start: "keeps (table_is c) (ble_adv_start e)"
  unfolding ble_adv_start_def
  by (intro keeps_intros keeps_table keeps_modify) (simp_all add: table_is_def)

lemma keeps_table_enable: "keeps (table_is c) (ble_enable e u)"
  unfolding ble_enable_def ble_enable_body_def
  by (intro keeps_intros keeps_table keeps_table_init keeps_table_adv_start keeps_modify)
    (simp_all add: table_is_def)

lemma keeps_table_disable: "keeps (table_is c) (ble_disable u)"
  unfolding ble_disable_def
  by (intro keeps_intros keeps_table keeps_table_adv_stop keeps_modify) (simp_all add: table_is_def)

lemmas keeps_table_radio = keeps_table_init keeps_table_adv_stop keeps_table_adv_start
  keeps_table_enable keeps_table_disable

lemma keeps_table_prints: "keeps (table_is c) (print_timestamps ts)"
  by (induction ts) (auto intro!: keeps_intros keeps_table)

lemma keeps_table_shell:
  assumes "shell_command e argv = Some m"
  shows "keeps (table_is c) m"
proof -
  have "keeps (table_is c) (cmd_retransmission argv)" "keeps (table_is c) (cmd_payload e argv)"
    "keeps (table_is c) (cmd_key e argv)"
    unfolding cmd_retransmission_def Let_def sat_retransmission_set_def cmd_payload_def
      cmd_payload_set_def sat_payload_set_def cmd_key_def crypto_key_set_def hubble_nvs_write_def
    by (intro keeps_intros keeps_table keeps_modify; simp add: table_is_def)+
  moreover have "keeps (table_is c) (cmd_status e)" "keeps (table_is c) (cmd_time e)"
    "keeps (table_is c) (cmd_sensor e argv)" "keeps (table_is c) (cmd_ble e argv)"
    unfolding cmd_status_def status_report_def sat_is_transmitting_def crypto_key_is_set_def
      cmd_time_def cmd_sensor_def cmd_ble_def sat_next_transmission_get_def Let_def
    by (intro keeps_intros keeps_table keeps_table_prints keeps_table_radio
        keeps_logs [OF logs_sensor_data_get])+
  ultimately show ?thesis
    using assms by (auto simp: shell_command_def split: if_splits)
qed

text \<open>No handler but the write callback changes the table.\<close>

fun is_write :: "handler \<Rightarrow> bool" where
  "is_write (Gatt_write req flags) = True"
| "is_write h = False"

lemma keeps_table_handler: "\<not> is_write h \<Longrightarrow> keeps (table_is c) (handler_op e h)"
proof (cases h)
  case (Shell_line argv)
  then show ?thesis
    by (cases "shell_command e argv :: ('a ble_state_scheme, int) state option")
      (auto intro!: keeps_intros keeps_table_shell)
qed (auto simp: connected_cb_def disconnected_cb_def button_pressed_def button_pressed_worker_def
    timer_cb_def timer_ble_cb_def led_blink_cb_def led_stop_cb_def ble_work_handler_def
    adv_provisioning_work_handler_def ep_recv_def ep_bound_def
    intro!: keeps_intros keeps_table keeps_table_radio)

definition others :: "env \<Rightarrow> ble_state \<Rightarrow> ble_state \<Rightarrow> bool" where
  "others e s t \<longleftrightarrow> (\<exists>h. well_formed h \<and> \<not> is_write h \<and> handler_enabled h s \<and>
     t = exec (handler_op e h) s)"

lemma others_untouched:
  assumes "headers_ok e" and "others e s t"
  shows "table_untouched e s t"
proof -
  obtain h where h: "well_formed h" "\<not> is_write h" "handler_enabled h s" "t = exec (handler_op e h) s"
    using assms(2) by (auto simp: others_def)
  have "table_is (g_sat_passes_idx s, g_sat_passes_count s, g_sat_passes s) t"
    unfolding h(4) by (rule keepsD [OF keeps_table_handler [OF h(2)]]) (simp add: table_is_def)
  moreover have "call_grows e s t"
    using keepsD [OF keeps_handler_op [OF assms(1) h(1)], of s] handler_effect [OF h(3), of e]
    by (auto simp: call_grows_def h(4))
  ultimately show ?thesis
    by (simp add: table_untouched_def table_grows_def table_read_def table_is_def written_def)
qed

end
