(* ===== verification/Pass_Properties.thy ===== *)
theory Pass_Properties
  imports Pass_Others App_Field
begin

text \<open>
  The property of the pass table when main schedules while the Bluetooth thread adds passes
  and everything else runs in between.
\<close>

lemma others_steps_untouched:
  "headers_ok e \<Longrightarrow> par_steps (others e) c c' \<Longrightarrow> par_steps (table_untouched e) c c'"
  by (erule par_steps_mono) (rule others_untouched)

lemma never_waits_threads:
  "never_waits (sat_schedule_thread e fuel)" "never_waits (add_passes_thread e ps)"
proof -
  have skip: "never_waits (skip_past_thread fuel now_s)" for now_s
    by (induction fuel) simp_all
  show "never_waits (sat_schedule_thread e fuel)"
    unfolding sat_schedule_thread_def
    by (simp add: never_waits_call_then [OF skip] split: option.split bool.split)
  show "never_waits (add_passes_thread e ps)"
    by (induction ps) (auto simp: sat_pass_add_thread_def intro!: never_waits_call_then)
qed

text \<open>C8: Adding passes while main schedules loses nothing and arms the right pass, although no lock
  protects the table: main and the Bluetooth thread preempt each other at every access to
  it, and every other handler runs in between. Wherever they are, their own steps lead to
  the end; and there no access was out of bounds, and the outcome is that of scheduling in
  one action at a moment when the passes \<open>qs\<close> had been added, with the rest \<open>more\<close> added
  after it: the passes that have begun are dropped, the timer is armed for the first of the
  others, the call fails exactly when there was none, and all the passes that there is room for
  are in the table in order.\<close>

theorem passes_added_while_scheduling:
  assumes "headers_ok e" and "app_ok e s" and "\<not> cfg_pass_prediction e"
    and "HUBBLE_NUMBER_OF_TIMESTAMPS \<le> fuel"
    and "par_steps (others e) (sat_schedule_thread e fuel, add_passes_thread e ps, s) (p, q, t)"
  shows "(\<exists>r t'. par_steps (others e) (p, q, t) (Done r, Done (), t')) \<and>
    (\<forall>r. p = Done r \<and> q = Done () \<longrightarrow> \<not> fault t \<and>
      (\<exists>h qs more. qs @ more = take (queue_room s) ps \<and> asked_time s h t \<and>
        (let ready = dropWhile (is_past (now_at e h)) (pending s @ qs) in
         pending t = ready @ more \<and> r = Some (if ready = [] then - 1 else 0) \<and>
         (ready \<noteq> [] \<longrightarrow> armed_for e h (hd ready) t))))"
    (is "?ends \<and> (\<forall>r. _ \<longrightarrow> ?outcome r)")
proof -
  have "never_waits p" "never_waits q"
    using par_steps_never_wait [OF assms(5)] by (simp_all add: never_waits_threads)
  then have ?ends using both_finish [of p q "others e" t] by auto
  moreover have "?outcome r" if r: "p = Done r" "q = Done ()" for r
  proof -
    have "added e s [] s" using assms(2) by (simp add: added_def)
    note ends = pass_sharing.par_done [OF others_steps_untouched [OF assms(1,5), unfolded r]
        rg_schedule [OF assms(2,4)] rg_add_passes [OF assms(2) this assms(3), of ps]]
    obtain h where h: "scheduled e s h r t" using ends(1) by blast
    then obtain qs more where m: "written t = written s @ qs @ more"
        "let ready = dropWhile (is_past (now_at e h)) (pending s @ qs) in
           pending t = ready @ more \<and> r = Some (if ready = [] then - 1 else 0) \<and>
           (ready \<noteq> [] \<longrightarrow> armed_for e h (hd ready) t)"
      unfolding scheduled_def by blast
    have "qs @ more = take (queue_room s) ps" using ends(2) m(1) by (simp add: added_def)
    with h m(2) show ?thesis unfolding scheduled_def app_ok_def by blast
  qed
  ultimately show ?thesis by blast
qed

theorem passes_added_while_scheduling_witness:
  "\<exists>r t. par_steps (others sample_env) (sat_schedule_thread sample_env 300,
       add_passes_thread sample_env [pass_at 4000 10], sample_state) (Done r, Done (), t) \<and>
     r = Some 0 \<and> pending t = [pass_at 2000 60, pass_at 3000 90, pass_at 4000 10]"
proof -
  let ?c = "(sat_schedule_thread sample_env 300 :: (ble_state, int option) prog,
      add_passes_thread sample_env [pass_at 4000 10], sample_state)"
  have n: "\<not> cfg_pass_prediction sample_env" using queue_ok_sample by (simp add: queue_ok_def)
  have f: "HUBBLE_NUMBER_OF_TIMESTAMPS \<le> 300" by (simp add: HUBBLE_NUMBER_OF_TIMESTAMPS_def)
  note result = passes_added_while_scheduling [OF headers_ok_sample app_ok_sample n f]
  obtain r t where rt: "par_steps (others sample_env) ?c (Done r, Done (), t)"
    using result [OF rtranclp.rtrancl_refl] by blast
  from result [OF this] obtain h qs more where
    q: "qs @ more = take (queue_room sample_state) [pass_at 4000 10]"
    "let ready = dropWhile (is_past (now_at sample_env h)) (pending sample_state @ qs) in
         pending t = ready @ more \<and> r = Some (if ready = [] then - 1 else 0)" by (auto simp: Let_def)
  have now: "now_at sample_env h = 1000"
    by (simp add: now_at_def MSEC_PER_SEC_def sample_env_def)
  have room: "queue_room sample_state = 297"
    by (simp add: queue_room_def HUBBLE_NUMBER_OF_TIMESTAMPS_def sample_state_def)
  have "qs = [pass_at 4000 10] \<and> more = [] \<or> qs = [] \<and> more = [pass_at 4000 10]"
    using q(1) by (auto simp: room append_eq_Cons_conv)
  with q(2) have "r = Some 0 \<and> pending t = [pass_at 2000 60, pass_at 3000 90, pass_at 4000 10]"
    by (auto simp: now pending_sample is_past_sample Let_def)
  with rt show ?thesis by blast
qed

end
