(* ===== verification/Payload_Threads.thy ===== *)
theory Payload_Threads
  imports Rely_Guarantee App_Invariants
begin

text \<open>
  The payload variables of \<^verbatim>\<open>sat_board.c\<close>: main assembles the payload while the shell sets it.
  The shell's mutex protects the shell's thread alone, \<^verbatim>\<open>sat_transmit\<close> does not take it. Both
  are cut at every access to \<^verbatim>\<open>_payload_type\<close>, \<^verbatim>\<open>_custom_payload_size\<close> and
  \<^verbatim>\<open>_custom_payload_buffer\<close> (a \<^verbatim>\<open>memcpy\<close> is one access) and at every call of a driver.
\<close>

section \<open>Programs\<close>

definition sensor_data_get_thread ::
    "env \<Rightarrow> int \<Rightarrow> ('a world_scheme, int + sensor_value) prog" where
  "sensor_data_get_thread e channel =
     act (ask (o_sensor_ready e) Sensor_ready) (\<lambda>ready.
     if \<not> ready then Done (Inl (- EAGAIN))
     else
       act (ask (o_sensor_fetch e) Sensor_fetch) (\<lambda>err.
       if err = 0 then
         act (ask (o_sensor_get e) (Sensor_get channel)) (\<lambda>(err, v).
         Done (if err = 0 then Inr v else Inl err))
       else Done (Inl err)))"

text \<open>The copy of \<open>n\<close> bytes of the custom text into the packet.\<close>

definition copy_custom :: "bytes \<Rightarrow> nat \<Rightarrow> ('a sat_state_scheme, bytes) state" where
  "copy_custom pkt_buffer n = do {
     src \<leftarrow> gets g_custom_payload_buffer;
     guard_ok (n \<le> length src);
     copy_to_packet pkt_buffer (take n src)
   }"

text \<open>The packet once its tag is set, and the whole of it.\<close>

definition payload_body_thread :: "env \<Rightarrow> bytes \<Rightarrow> ('a sat_state_scheme, bytes \<times> nat) prog" where
  "payload_body_thread e pkt_buffer =
     act (gets g_payload_type) (\<lambda>type.
     if type = CUSTOM then
       act (gets (\<lambda>s. unat (g_custom_payload_size s))) (\<lambda>n.
       act (copy_custom pkt_buffer n) (\<lambda>buf.
       Done (buf, PAYLOAD_MAX e)))
     else
       act (gets g_payload_type) (\<lambda>type.
       if type = GAUGE_VOLTAGE e then
         act (ask (o_fuel_gauge e) (Fuel_gauge_get [RELATIVE_STATE_OF_CHARGE])) (\<lambda>(r, charge, _).
         if r = 0 then act (copy_to_packet pkt_buffer [charge]) (\<lambda>buf. Done (buf, 1 + 1))
         else Done (pkt_buffer, 0))
       else
         act (gets g_payload_type) (\<lambda>type.
         call_then (sensor_data_get_thread e type) (\<lambda>r.
         case r of
           Inr v \<Rightarrow> act (copy_to_packet pkt_buffer (sensor_bytes v)) (\<lambda>buf. Done (buf, 8 + 1))
         | Inl _ \<Rightarrow> Done (pkt_buffer, 0)))))"

definition sat_payload_build_thread :: "env \<Rightarrow> ('a sat_state_scheme, bytes \<times> nat) prog" where
  "sat_payload_build_thread e =
     (if \<not> cfg_fuel_gauge e then Done (replicate (PAYLOAD_MAX e) 0, 0)
      else
        act (gets g_payload_type) (\<lambda>type.
        act (guard_ok (0 < PAYLOAD_MAX e)) (\<lambda>_.
        payload_body_thread e ((replicate (PAYLOAD_MAX e) 0)[0 := channel_to_hubble e type]))))"

definition store_custom :: "bytes \<Rightarrow> nat \<Rightarrow> ('a sat_state_scheme, unit) state" where
  "store_custom data len = do {
     cap \<leftarrow> gets (\<lambda>s. length (g_custom_payload_buffer s));
     guard_ok (len \<le> cap \<and> len \<le> length data);
     modify (\<lambda>s. s\<lparr>g_custom_payload_buffer := blit (g_custom_payload_buffer s) 0 (take len data)\<rparr>)
   }"

definition sat_payload_set_thread ::
    "int \<Rightarrow> bytes \<Rightarrow> nat \<Rightarrow> ('a sat_state_scheme, int) prog" where
  "sat_payload_set_thread type data len =
     act (modify (\<lambda>s. s\<lparr>g_payload_type := type\<rparr>)) (\<lambda>_.
     if len \<noteq> 0 then
       act (store_custom data len) (\<lambda>_.
       act (modify (\<lambda>s. s\<lparr>g_custom_payload_size := of_nat len\<rparr>)) (\<lambda>_. Done 0))
     else Done 0)"

definition cmd_payload_set_thread :: "env \<Rightarrow> string list \<Rightarrow> ('a sat_state_scheme, int) prog" where
  "cmd_payload_set_thread e argv =
     (if length argv = 2 then
        call_then (sat_payload_set_thread (sensor_channel_get e (argv ! 1)) [] 0) (\<lambda>_.
        Done (if sensor_channel_get e (argv ! 1) \<noteq> CHAN_MAX e then 0 else - EINVAL))
      else if length argv = 3 \<and> take 6 (argv ! 1) = ''custom'' \<and> length (argv ! 2) < 13 then
        call_then (sat_payload_set_thread CUSTOM (text_bytes (argv ! 2)) (length (argv ! 2))) (\<lambda>_.
        Done 0)
      else Done (- EINVAL))"

definition cmd_payload_thread :: "env \<Rightarrow> string list \<Rightarrow> ('a sat_state_scheme, int) prog" where
  "cmd_payload_thread e argv =
     act (tell (Mutex_lock Shell_mutex)) (\<lambda>_.
     call_then (cmd_payload_set_thread e argv) (\<lambda>r.
     act (tell (Mutex_unlock Shell_mutex)) (\<lambda>_.
     if r \<noteq> 0 then
       act (do { a \<leftarrow> argv_text argv 1; shell_print ''Invalid payload %s'' [a] }) (\<lambda>_. Done 0)
     else Done 0)))"

section \<open>Alone, each is the operation\<close>

lemma alone_sensor [thread_simps]: "alone (sensor_data_get_thread e ch) = sensor_data_get e ch"
  by (rule state.expand) (auto simp: sensor_data_get_thread_def sensor_data_get_def thread_simps
      fun_eq_iff split: prod.splits)

lemma alone_payload_build: "alone (sat_payload_build_thread e) = sat_payload_build e"
  by (rule state.expand)
    (auto simp: sat_payload_build_thread_def payload_body_thread_def sat_payload_build_def thread_simps copy_custom_def
      fun_eq_iff Let_def split: prod.splits sum.splits)

lemma alone_payload_set [thread_simps]:
  "alone (sat_payload_set_thread t data len) = sat_payload_set t data len"
  by (rule state.expand)
    (auto simp: sat_payload_set_thread_def sat_payload_set_def store_custom_def thread_simps fun_eq_iff)

lemma alone_cmd_payload: "alone (cmd_payload_thread e argv) = cmd_payload e argv"
  by (rule state.expand)
    (auto simp: cmd_payload_thread_def cmd_payload_def cmd_payload_set_thread_def cmd_payload_set_def
      thread_simps Let_def fun_eq_iff split: prod.splits)

end
