(* ===== verification/Payload_Sharing.thy ===== *)
theory Payload_Sharing
  imports Payload_Threads Pass_Sharing
begin

text \<open>
  Main's assembly of the payload and the shell's command keep the invariant of the variables
  in every action, and rely on nothing else of each other.
\<close>

lemma call_grows_preorder: "reflp (call_grows e)" "transp (call_grows e)"
  by (auto intro!: reflpI transpI call_grows_refl elim: call_grows_trans)

interpretation payload_sharing:
  rely_guarantee "call_grows e" "call_grows e" "call_grows e" "call_grows e" "call_grows e" for e
  by unfold_locales (auto simp: call_grows_preorder)

lemma stable_app_ok: "stable (app_ok e) (call_grows e)"
  by (rule stableI) (simp add: call_grows_def)

section \<open>Programs that keep the invariant\<close>

text \<open>An action that keeps the invariant and whose result is in \<open>A\<close>; and a program of such.\<close>

definition tidy :: "env \<Rightarrow> ('x \<Rightarrow> bool) \<Rightarrow> (ble_state, 'x) state \<Rightarrow> bool" where
  "tidy e A m \<longleftrightarrow> (\<forall>s. app_ok e s \<longrightarrow> call_grows e s (exec m s) \<and> A (result m s))"

definition tidy_thread :: "env \<Rightarrow> ('r \<Rightarrow> bool) \<Rightarrow> (ble_state, 'r) prog \<Rightarrow> bool" where
  "tidy_thread e A p \<longleftrightarrow> (\<forall>s. app_ok e s \<longrightarrow>
     rg (call_grows e) (call_grows e) (\<lambda>r t. app_ok e t \<and> A r) p s)"

named_theorems tidy_intros \<open>programs that keep the invariant, along their structure\<close>

lemma tidy_Done [tidy_intros]: "A r \<Longrightarrow> tidy_thread e A (Done r)"
  by (auto simp: tidy_thread_def call_grows_def)

lemma tidy_act: "tidy e B m \<Longrightarrow> (\<And>x. B x \<Longrightarrow> tidy_thread e A (k x)) \<Longrightarrow> tidy_thread e A (act m k)"
  unfolding tidy_thread_def
  by (intro allI impI rg_actI [OF stable_app_ok]) (auto simp: tidy_def call_grows_def)

lemma tidy_call_then [tidy_intros]:
  assumes "tidy_thread e B p" and "\<And>x. B x \<Longrightarrow> tidy_thread e A (f x)"
  shows "tidy_thread e A (call_then p f)"
  unfolding tidy_thread_def
proof (intro allI impI)
  fix s :: ble_state
  assume "app_ok e s"
  with assms(1) have "rg (call_grows e) (call_grows e) (\<lambda>r t. app_ok e t \<and> B r) p s"
    by (simp add: tidy_thread_def)
  then show "rg (call_grows e) (call_grows e) (\<lambda>r t. app_ok e t \<and> A r) (call_then p f) s"
    by (rule rg_call_then [OF call_grows_preorder(2) _ _ call_grows_preorder(1)])
      (use assms(2) in \<open>simp add: tidy_thread_def\<close>)
qed

lemma tidy_gets [tidy_intros]:
  "(\<And>s. app_ok e s \<Longrightarrow> B (f s)) \<Longrightarrow> (\<And>x. B x \<Longrightarrow> tidy_thread e A (k x)) \<Longrightarrow>
   tidy_thread e A (act (gets f) k)"
  by (rule tidy_act) (auto simp: tidy_def call_grows_refl)

lemma app_ok_calls [simp]: "app_ok e (s\<lparr>calls := cs\<rparr>) = app_ok e s"
  by (simp add: app_ok_defs)

lemma tidy_ask [tidy_intros]:
  "(\<And>x. tidy_thread e A (k x)) \<Longrightarrow> tidy_thread e A (act (ask f c) k)"
  by (rule tidy_act [where B = "\<lambda>_. True"]) (auto simp: tidy_def call_grows_def)

lemma tidy_tell [tidy_intros]:
  "tidy_thread e A (k ()) \<Longrightarrow> tidy_thread e A (act (tell c) k)"
  by (rule tidy_act [where B = "\<lambda>_. True"]) (auto simp: tidy_def call_grows_def)

lemma tidy_guard [tidy_intros]:
  "b \<Longrightarrow> tidy_thread e A (k ()) \<Longrightarrow> tidy_thread e A (act (guard_ok b) k)"
  by (rule tidy_act [where B = "\<lambda>_. True"]) (auto simp: tidy_def call_grows_def)

lemma tidy_modify:
  "(\<And>s. app_ok e s \<Longrightarrow> app_ok e (f s)) \<Longrightarrow> (\<And>s. calls (f s) = calls s) \<Longrightarrow>
   tidy_thread e A (k ()) \<Longrightarrow> tidy_thread e A (act (modify f) k)"
  by (rule tidy_act [where B = "\<lambda>_. True"]) (auto simp: tidy_def call_grows_def)

lemma tidy_if [tidy_intros]:
  "(b \<Longrightarrow> tidy_thread e A p) \<Longrightarrow> (\<not> b \<Longrightarrow> tidy_thread e A q) \<Longrightarrow> tidy_thread e A (if b then p else q)"
  by simp

lemma tidy_case_prod [tidy_intros]:
  "(\<And>x y. tidy_thread e A (f x y)) \<Longrightarrow> tidy_thread e A (case p of (x, y) \<Rightarrow> f x y)"
  by (cases p) simp

lemma tidy_case_sum [tidy_intros]:
  "(\<And>x. tidy_thread e A (f x)) \<Longrightarrow> (\<And>y. tidy_thread e A (g y)) \<Longrightarrow>
   tidy_thread e A (case v of Inl x \<Rightarrow> f x | Inr y \<Rightarrow> g y)"
  by (cases v) simp_all

section \<open>The two users\<close>

lemma tidy_copy:
  assumes "length buf = PAYLOAD_MAX e" and "1 + length src \<le> PAYLOAD_MAX e"
    and "\<And>b. length b = PAYLOAD_MAX e \<Longrightarrow> tidy_thread e A (k b)"
  shows "tidy_thread e A (act (copy_to_packet buf src) k)"
  by (rule tidy_act [where B = "\<lambda>b. length b = PAYLOAD_MAX e"])
    (use assms in \<open>auto simp: tidy_def copy_to_packet_def call_grows_refl\<close>)

lemma tidy_copy_custom:
  assumes "length buf = PAYLOAD_MAX e" and "n \<le> 12" and "headers_ok e"
    and "\<And>b. length b = PAYLOAD_MAX e \<Longrightarrow> tidy_thread e A (k b)"
  shows "tidy_thread e A (act (copy_custom buf n) k)"
proof (rule tidy_act [where B = "\<lambda>b. length b = PAYLOAD_MAX e"])
  show "tidy e (\<lambda>b. length b = PAYLOAD_MAX e) (copy_custom buf n)"
    using assms(1-3) by (auto simp: tidy_def copy_custom_def copy_to_packet_def call_grows_refl
        headers_ok_def app_ok_defs)
qed (rule assms(4))

definition payload_fits :: "env \<Rightarrow> bytes \<times> nat \<Rightarrow> bool" where
  "payload_fits e r \<longleftrightarrow> length (fst r) = PAYLOAD_MAX e \<and>
     nearest_packet_len_get (snd r) \<in> {0, 4, 13, PAYLOAD_MAX e}"

lemma tidy_sensor: "tidy_thread e (\<lambda>_. True) (sensor_data_get_thread e ch)"
  unfolding sensor_data_get_thread_def by (intro tidy_intros TrueI)

lemma tidy_payload_build:
  assumes "headers_ok e"
  shows "tidy_thread e (payload_fits e) (sat_payload_build_thread e)"
proof -
  have sz: "13 \<le> PAYLOAD_MAX e" using assms by (simp add: headers_ok_def)
  note near = nearest_packet_len_cases
  have custom: "tidy_thread e (payload_fits e)
      (act (gets (\<lambda>s. unat (g_custom_payload_size s))) (\<lambda>n.
       act (copy_custom buf n) (\<lambda>buf. Done (buf, PAYLOAD_MAX e))))"
    if "length buf = PAYLOAD_MAX e" for buf
    by (rule tidy_gets [where B = "\<lambda>n. n \<le> 12"])
      (use sz near that assms in \<open>auto simp: app_ok_defs payload_fits_def
        intro!: tidy_copy_custom tidy_Done\<close>)
  show ?thesis
    unfolding sat_payload_build_thread_def payload_body_thread_def
    by (intro tidy_intros tidy_copy custom tidy_call_then [OF tidy_sensor] TrueI)
      (use sz near in \<open>auto simp: payload_fits_def\<close>)
qed

lemma tidy_payload_set:
  assumes "headers_ok e" and "payload_type_ok e type" and "len \<le> 12" and "len \<le> length data"
  shows "tidy_thread e (\<lambda>r. r = 0) (sat_payload_set_thread type data len)"
proof -
  have u: "unat (of_nat len :: u8) = len" using assms(3) by (simp add: unat_of_nat)
  have store: "tidy e (\<lambda>_. True) (store_custom data len)"
    using assms by (auto simp: tidy_def store_custom_def call_grows_def app_ok_defs headers_ok_def)
  show ?thesis
    unfolding sat_payload_set_thread_def
    by (intro tidy_intros tidy_modify tidy_act [OF store])
      (use assms(2,3) u in \<open>auto simp: app_ok_defs\<close>)
qed

lemma tidy_cmd_payload:
  assumes "headers_ok e" and "2 \<le> length argv"
  shows "tidy_thread e (\<lambda>r. r = 0) (cmd_payload_thread e argv)"
proof -
  have "tidy_thread e (\<lambda>_. True) (cmd_payload_set_thread e argv)"
    unfolding cmd_payload_set_thread_def
    by (intro tidy_intros tidy_call_then [OF tidy_payload_set [OF assms(1)]] payload_type_channel
        payload_type_custom TrueI) simp_all
  moreover have "tidy e (\<lambda>_. True) (do { a \<leftarrow> argv_text argv 1; shell_print f [a] })" for f
    using assms(2) by (auto simp: tidy_def argv_text_def shell_print_def call_grows_def)
  ultimately show ?thesis
    unfolding cmd_payload_thread_def
    by (intro tidy_intros tidy_call_then [of _ "\<lambda>_. True"] tidy_act refl)
qed

end
