(* ===== verification/Payload_Properties.thy ===== *)
theory Payload_Properties
  imports Payload_Sharing Pass_Others App_Field Shell_Properties
begin

text \<open>
  The properties of the payload when main assembles it while the shell sets it.
\<close>

definition any_handler :: "env \<Rightarrow> ble_state \<Rightarrow> ble_state \<Rightarrow> bool" where
  "any_handler e s t \<longleftrightarrow> (\<exists>h. well_formed h \<and> handler_enabled h s \<and> t = exec (handler_op e h) s)"

lemma any_handler_grows: "headers_ok e \<Longrightarrow> any_handler e s t \<Longrightarrow> call_grows e s t"
  using keepsD [OF keeps_handler_op [of e], of _ s] handler_effect [of _ s e]
  by (fastforce simp: any_handler_def call_grows_def)

lemma handler_steps_grow:
  "headers_ok e \<Longrightarrow> par_steps (any_handler e) c c' \<Longrightarrow> par_steps (call_grows e) c c'"
  by (erule par_steps_mono) (rule any_handler_grows)

lemma never_waits_payload:
  "never_waits (sat_payload_build_thread e)" "never_waits (cmd_payload_thread e argv)"
  by (auto simp: sat_payload_build_thread_def payload_body_thread_def sensor_data_get_thread_def cmd_payload_thread_def
      cmd_payload_set_thread_def sat_payload_set_thread_def Let_def
      intro!: never_waits_act never_waits_call_then split: prod.split sum.split)

text \<open>C16: Assembling the payload is memory safe although the shell can change the payload's type,
  size and text between any two of its accesses, and every other handler can run there:
  wherever main and the shell's command are, their own steps lead to the end; and there main
  has a full buffer, a length the encoder accepts, and no access was out of bounds.\<close>

theorem payload_safe_under_preemption:
  assumes "headers_ok e" and "app_ok e s" and "2 \<le> length argv"
    and "par_steps (any_handler e) (sat_payload_build_thread e, cmd_payload_thread e argv, s) (p, q, t)"
  shows "(\<exists>r t'. par_steps (any_handler e) (p, q, t) (Done r, Done 0, t')) \<and>
    (\<forall>buf n. p = Done (buf, n) \<longrightarrow> \<not> fault t \<and> length buf = PAYLOAD_MAX e \<and>
      nearest_packet_len_get n \<in> {0, 4, 13, PAYLOAD_MAX e})"
proof -
  have "never_waits p" "never_waits q"
    using par_steps_never_wait [OF assms(4)] by (simp_all add: never_waits_payload)
  then obtain r x t' where ends: "par_steps (any_handler e) (p, q, t) (Done r, Done x, t')"
    using both_finish [of p q "any_handler e" t] by auto
  note grows = handler_steps_grow [OF assms(1)]
  have rgs: "rg (call_grows e) (call_grows e) (\<lambda>r t. app_ok e t \<and> payload_fits e r)
      (sat_payload_build_thread e) s"
    "rg (call_grows e) (call_grows e) (\<lambda>r t. app_ok e t \<and> r = 0) (cmd_payload_thread e argv) s"
    using tidy_payload_build [OF assms(1)] tidy_cmd_payload [OF assms(1,3)] assms(2)
    by (simp_all add: tidy_thread_def)
  have "x = 0"
    using payload_sharing.par_done(2) [OF grows [OF rtranclp_trans [OF assms(4) ends]] rgs] by blast
  moreover have "app_ok e t \<and> payload_fits e (buf, n)" if "p = Done (buf, n)" for buf n
    using payload_sharing.par_left_done [OF grows [OF assms(4), unfolded that] rgs] by blast
  ultimately show ?thesis
    using ends by (auto simp: payload_fits_def app_ok_def simp del: split_paired_Ex)
qed

theorem payload_safe_under_preemption_witness:
  "\<exists>buf n t. par_steps (any_handler sample_env) (sat_payload_build_thread sample_env,
       cmd_payload_thread sample_env [''payload'', ''custom'', ''abc''], sample_state)
       (Done (buf, n), Done 0, t) \<and> \<not> fault t \<and> length buf = 13"
proof -
  let ?c = "(sat_payload_build_thread sample_env :: (ble_state, bytes \<times> nat) prog,
      cmd_payload_thread sample_env [''payload'', ''custom'', ''abc''], sample_state)"
  note safe = payload_safe_under_preemption [OF headers_ok_sample app_ok_sample,
      of "[''payload'', ''custom'', ''abc'']"]
  obtain buf n t where run: "par_steps (any_handler sample_env) ?c (Done (buf, n), Done 0, t)"
    using safe [OF _ rtranclp.rtrancl_refl] by auto
  from safe [OF _ this] have "\<not> fault t" "length buf = 13" by auto
  with run show ?thesis by blast
qed

text \<open>C24: But the payload can be torn. Main reads the type for the tag; before it reads the type
  again, the shell's command runs and sets a custom text: the packet then carries the text
  under the tag of the sensor, at the full length. When the command runs before, the text is
  under the tag of a custom payload. The shell's mutex does not help, since main does not
  take it.\<close>

theorem custom_text_with_sensor_tag:
  assumes "headers_ok e" and "app_ok e s" and "cfg_fuel_gauge e" and "g_payload_type s = TEMP e"
    and "0 < length txt" and "length txt \<le> 12"
  defines "line \<equiv> [''payload'', ''custom'', txt]"
  shows "(\<exists>buf t. par_steps (any_handler e) (sat_payload_build_thread e, cmd_payload_thread e line, s)
      (Done (buf, PAYLOAD_MAX e), Done 0, t) \<and>
      hd buf = channel_to_hubble e (TEMP e) \<and> take (length txt) (tl buf) = text_bytes txt) \<and>
    hd (fst (result (sat_payload_build e) (exec (cmd_payload e line) s))) = channel_to_hubble e CUSTOM \<and>
    channel_to_hubble e CUSTOM \<noteq> channel_to_hubble e (TEMP e)"
proof -
  let ?pkt = "(replicate (PAYLOAD_MAX e) 0)[0 := channel_to_hubble e (TEMP e)]"
  let ?E = "any_handler e" and ?q = "cmd_payload_thread e line" and ?s = "exec (cmd_payload e line) s"
  let ?body = "payload_body_thread e ?pkt" and ?buf = "blit ?pkt 1 (text_bytes txt)"
  have sz: "13 \<le> PAYLOAD_MAX e" "length (g_custom_payload_buffer s) = PAYLOAD_MAX e"
    using assms(1,2) by (auto simp: headers_ok_def app_ok_defs)
  have stored: "result (cmd_payload e line) s = 0" "g_payload_type ?s = CUSTOM"
    "unat (g_custom_payload_size ?s) = length txt"
    "g_custom_payload_buffer ?s = blit (g_custom_payload_buffer s) 0 (text_bytes txt)"
    using cmd_payload_custom [of "txt" s e "''payload''"] assms(5,6) sz
    by (simp_all add: line_def unat_of_nat)
  have "app_ok e ?s"
    by (rule keepsD [OF keeps_cmd_payload [OF assms(1)] assms(2)]) (simp add: line_def)
  then have ok: "board_ok e ?s" by (simp add: app_ok_def)
  have tags: "channel_to_hubble e CUSTOM = 0" "channel_to_hubble e (TEMP e) = 1"
    using assms(1) by (auto simp: headers_ok_def channel_to_hubble_def payload_type_defs)
  have "par_step ?E (sat_payload_build_thread e, ?q, s) (act (guard_ok (0 < PAYLOAD_MAX e)) (\<lambda>_. ?body), ?q, s)"
    using par_act [of ?E "gets g_payload_type" _ ?q s] assms(3,4)
    by (simp add: sat_payload_build_thread_def)
  moreover have "par_step ?E (act (guard_ok (0 < PAYLOAD_MAX e)) (\<lambda>_. ?body), ?q, s) (?body, ?q, s)"
    using par_act [of ?E "guard_ok (0 < PAYLOAD_MAX e)" "\<lambda>_. ?body" ?q s] sz by auto
  ultimately have 1: "par_steps ?E (sat_payload_build_thread e, ?q, s) (?body, ?q, s)"
    by (meson r_into_rtranclp rtranclp.rtrancl_into_rtrancl)
  have "unblocked ?q s"
    by (simp add: cmd_payload_thread_def cmd_payload_set_thread_def sat_payload_set_thread_def thread_simps)
  with right_runs [of ?q s ?E ?body] stored(1) have 2: "par_steps ?E (?body, ?q, s) (?body, Done 0, ?s)"
    by (simp add: alone_cmd_payload)
  have "unblocked ?body ?s" using stored(2) by (simp add: payload_body_thread_def thread_simps)
  moreover have "result (alone ?body) ?s = (?buf, PAYLOAD_MAX e)"
    using stored(2-4) sz assms(6)
    by (simp add: payload_body_thread_def thread_simps copy_custom_def copy_to_packet_def)
  ultimately have 3: "par_steps ?E (?body, Done 0, ?s) (Done (?buf, PAYLOAD_MAX e), Done 0, exec (alone ?body) ?s)"
    using left_runs [of ?body ?s ?E "Done 0"] by simp
  have "hd ?buf = channel_to_hubble e (TEMP e)" "take (length txt) (tl ?buf) = text_bytes txt"
    using sz by (cases "PAYLOAD_MAX e"; simp add: blit_def)+
  moreover have "hd (fst (result (sat_payload_build e) ?s)) = channel_to_hubble e CUSTOM"
    using sat_payload_build_run [OF assms(1) ok] assms(3) stored(2) by auto
  ultimately show ?thesis
    using rtranclp_trans [OF rtranclp_trans [OF 1 2] 3] tags by auto
qed

theorem custom_text_with_sensor_tag_witness:
  "\<exists>buf t. par_steps (any_handler sample_env) (sat_payload_build_thread sample_env,
       cmd_payload_thread sample_env [''payload'', ''custom'', ''abc''],
       sample_state\<lparr>g_payload_type := TEMP sample_env\<rparr>) (Done (buf, 13), Done 0, t) \<and>
     hd buf = 1 \<and> take 3 (tl buf) = [97, 98, 99]"
proof -
  have ok: "app_ok sample_env (sample_state\<lparr>g_payload_type := TEMP sample_env\<rparr>)"
    using app_ok_sample by (simp add: app_ok_defs payload_type_ok_def payload_enumerators_def)
  have "channel_to_hubble sample_env (TEMP sample_env) = 1"
    by (simp add: channel_to_hubble_def payload_type_defs)
  with custom_text_with_sensor_tag [OF headers_ok_sample ok, of "''abc''"] show ?thesis
    by (auto simp: text_bytes_def numeral_nat)
qed

end
