(* ===== verification/Companion.thy ===== *)
theory Companion
  imports Ble_Gatt
begin

text \<open>
  \<^verbatim>\<open>scripts/companion.py\<close>: the script on a computer that provisions a device over
  Bluetooth. Python's integers are \<open>int\<close>; \<^verbatim>\<open>int.to_bytes\<close> raises \<^verbatim>\<open>OverflowError\<close> when the
  value does not fit. The model of the scan is the list of the requests it writes, in order,
  and how it ends. The time, the user's interrupt, the scanner's result and the two
  doubles are arguments.
\<close>

section \<open>Operations\<close>

type_synonym ephemeris = "(int \<times> int) list"

fun generate_utc_timestamps :: "int \<Rightarrow> int \<Rightarrow> int \<Rightarrow> nat \<Rightarrow> ephemeris \<Rightarrow> ephemeris" where
  "generate_utc_timestamps current_time interval duration 0 ephemeris = ephemeris"
| "generate_utc_timestamps current_time interval duration (Suc count) ephemeris =
     generate_utc_timestamps (current_time + interval) interval duration count
       (ephemeris @ [(current_time, duration)])"

definition to_bytes :: "nat \<Rightarrow> int \<Rightarrow> bytes option" where
  "to_bytes n x = (if 0 \<le> x \<and> x < 256 ^ n then Some (le_bytes n (nat x)) else None)"

fun append_entries :: "ephemeris \<Rightarrow> bytes \<Rightarrow> bytes option" where
  "append_entries [] bs = Some bs"
| "append_entries ((epoch, value) # entries) bs =
     (case to_bytes 4 epoch of None \<Rightarrow> None
      | Some es \<Rightarrow> (case to_bytes 2 value of None \<Rightarrow> None
         | Some vs \<Rightarrow> append_entries entries (bs @ es @ vs)))"

definition ephemeris_request :: "ephemeris \<Rightarrow> nat \<Rightarrow> nat \<Rightarrow> bytes option" where
  "ephemeris_request ephemeris pos batch_size =
     (case to_bytes 4 (int batch_size) of None \<Rightarrow> None
      | Some ns \<Rightarrow> append_entries (take batch_size (drop pos ephemeris))
                    ([SPBLE_PKT_CMD, SPBLE_CMD_SETEPHEMERIS] @ ns))"

datatype scan_end = Finished | Stopped | Overflow_error | No_device

text \<open>The \<^verbatim>\<open>while\<close> loop; \<open>stop pos\<close> is what \<^verbatim>\<open>stop_event\<close> says when the loop is at \<open>pos\<close>, and the
  second component is \<open>None\<close> when the loop runs to its end.\<close>

function ephemeris_writes ::
    "(nat \<Rightarrow> bool) \<Rightarrow> ephemeris \<Rightarrow> nat \<Rightarrow> nat \<Rightarrow> bytes list \<times> scan_end option" where
  "ephemeris_writes stop ephemeris pos total_left =
     (if total_left > 0 then
        if stop pos then ([], Some Stopped)
        else
          let batch_size = min total_left 20 in
          case ephemeris_request ephemeris pos batch_size of
            None \<Rightarrow> ([], Some Overflow_error)
          | Some req \<Rightarrow>
              let (reqs, r) = ephemeris_writes stop ephemeris (pos + batch_size) (total_left - batch_size)
              in (req # reqs, r)
      else ([], None))"
  by pat_completeness auto
termination
  by (relation "measure (\<lambda>(stop, ephemeris, pos, total_left). total_left)") auto

declare ephemeris_writes.simps [simp del]

definition scan ::
    "(nat \<Rightarrow> bool) \<Rightarrow> ephemeris \<Rightarrow> int \<Rightarrow> u64 \<Rightarrow> u64 \<Rightarrow> bool \<Rightarrow> bytes list \<times> scan_end" where
  "scan stop ephemeris now_ms latitude longitude found =
     (if found then
        (case ephemeris_writes stop ephemeris 0 (length ephemeris) of
           (reqs, Some r) \<Rightarrow> (reqs, r)
         | (reqs, None) \<Rightarrow>
             (case to_bytes 8 now_ms of
                None \<Rightarrow> (reqs, Overflow_error)
              | Some ts \<Rightarrow>
                  (reqs @ [[SPBLE_PKT_CMD, SPBLE_CMD_SETUTC] @ ts,
                           [SPBLE_PKT_CMD, SPBLE_CMD_SETLOCATION] @
                             le_bytes 8 (unat latitude) @ le_bytes 8 (unat longitude)],
                   Finished)))
      else ([], No_device))"

text \<open>\<^verbatim>\<open>main\<close>: \<open>now_s\<close> is the time at which it generates the passes.\<close>

definition companion_main ::
    "(nat \<Rightarrow> bool) \<Rightarrow> int \<Rightarrow> int \<Rightarrow> u64 \<Rightarrow> u64 \<Rightarrow> bool \<Rightarrow> bytes list \<times> scan_end" where
  "companion_main stop now_s now_ms latitude longitude found =
     scan stop (generate_utc_timestamps (now_s + 20) 100 60 3 []) now_ms latitude longitude found"

text \<open>\<^verbatim>\<open>match_tilepro_uuid\<close>, on the texts of the service UUIDs an advertisement has.\<close>

definition match_tilepro_uuid :: "string list \<Rightarrow> bool" where
  "match_tilepro_uuid service_uuids \<longleftrightarrow>
     list_ex (\<lambda>uuid. take 8 uuid = ''0000fca7'') service_uuids"

section \<open>The generated passes\<close>

lemma generate_eq:
  "generate_utc_timestamps t i d n eph = eph @ map (\<lambda>k. (t + int k * i, d)) [0..<n]"
proof (induction n arbitrary: t eph)
  case 0
  show ?case by simp
next
  case (Suc n)
  have "map (\<lambda>k. (t + int k * i, d)) [0..<Suc n] =
      (t, d) # map (\<lambda>k. (t + i + int k * i, d)) [0..<n]"
    by (simp add: upt_conv_Cons map_Suc_upt [symmetric] distrib_right add.assoc del: upt_Suc)
  with Suc show ?case by simp
qed

section \<open>The requests are the encoders of the write characteristic\<close>

definition entry_of :: "sat_pass \<Rightarrow> int \<times> int" where
  "entry_of p = (uint (sp_timestamp p), uint (sp_duration p))"

lemma to_bytes_u32 [simp]: "to_bytes 4 (uint (w :: u32)) = Some (le_bytes 4 (unat w))"
  using uint_lt2p [of w] by (simp add: to_bytes_def)

lemma to_bytes_u16 [simp]: "to_bytes 2 (uint (w :: u16)) = Some (le_bytes 2 (unat w))"
  using uint_lt2p [of w] by (simp add: to_bytes_def)

lemma to_bytes_u64:
  assumes "0 \<le> x" and "x < 2 ^ 64"
  shows "to_bytes 8 x = Some (le_bytes 8 (unat (word_of_int x :: u64)))"
proof -
  have "uint (word_of_int x :: u64) = x" using assms by (simp add: uint_word_of_int)
  then have "unat (word_of_int x :: u64) = nat x" by (metis nat_uint_eq)
  with assms show ?thesis by (simp add: to_bytes_def)
qed

lemma append_entries_passes:
  "append_entries (map entry_of ps) bs = Some (bs @ concat (map encode_pass ps))"
  by (induction ps arbitrary: bs) (simp_all add: entry_of_def encode_pass_def)

fun chunks :: "'a list \<Rightarrow> 'a list list" where
  "chunks xs = (if xs = [] then [] else take 20 xs # chunks (drop 20 xs))"

declare chunks.simps [simp del]

lemma concat_chunks [simp]: "concat (chunks xs) = xs"
  by (induction xs rule: chunks.induct) (subst chunks.simps, simp)

lemma length_chunks: "length (chunks xs) = (length xs + 19) div 20"
proof (induction xs rule: chunks.induct)
  case (1 xs)
  show ?case
  proof (cases "20 < length xs")
    case True
    with 1 show ?thesis by (subst chunks.simps) (auto simp: le_div_geq)
  next
    case False
    moreover have "Suc 0 = (n + 19) div 20" if "0 < n" "n \<le> 20" for n :: nat
      using that by (intro sym [OF div_nat_eqI]) simp_all
    ultimately show ?thesis by (subst chunks.simps) (auto simp: chunks.simps [of "[]"])
  qed
qed

lemma chunks_small: "xs \<noteq> [] \<Longrightarrow> length xs \<le> 20 \<Longrightarrow> chunks xs = [xs]"
  by (subst chunks.simps, subst chunks.simps) simp

lemma set_chunks: "c \<in> set (chunks xs) \<Longrightarrow> length c \<le> 20"
  by (induction xs rule: chunks.induct) (subst (asm) chunks.simps, auto split: if_splits)

lemma ephemeris_request_pass:
  "n \<le> 20 \<Longrightarrow> n \<le> length ps - pos \<Longrightarrow> ephemeris_request (map entry_of ps) pos n =
     Some (encode_ephemeris (take n (drop pos ps)))"
  by (simp add: ephemeris_request_def to_bytes_def take_map drop_map append_entries_passes
      encode_ephemeris_def min_def)

lemma ephemeris_writes_chunks:
  assumes "\<And>n. \<not> stop n"
  shows "pos + total_left = length ps \<Longrightarrow> ephemeris_writes stop (map entry_of ps) pos total_left =
    (map encode_ephemeris (chunks (drop pos ps)), None)"
proof (induction total_left arbitrary: pos rule: less_induct)
  case (less total_left)
  let ?n = "min total_left 20"
  show ?case
  proof (cases "total_left = 0")
    case True
    with less.prems show ?thesis
      by (subst ephemeris_writes.simps) (simp add: chunks.simps)
  next
    case False
    then have IH: "ephemeris_writes stop (map entry_of ps) (pos + ?n) (total_left - ?n) =
        (map encode_ephemeris (chunks (drop (pos + ?n) ps)), None)"
      using less.prems by (intro less.IH) auto
    have "chunks (drop pos ps) = take 20 (drop pos ps) # chunks (drop 20 (drop pos ps))"
      using less.prems False by (subst chunks.simps) simp
    moreover have "take 20 (drop pos ps) = take ?n (drop pos ps)"
      "drop 20 (drop pos ps) = drop (pos + ?n) ps"
      using less.prems by (auto simp: min_def add.commute)
    moreover have "ephemeris_request (map entry_of ps) pos ?n = Some (encode_ephemeris (take ?n (drop pos ps)))"
      using less.prems by (intro ephemeris_request_pass) auto
    ultimately show ?thesis
      using False IH assms by (subst ephemeris_writes.simps) (simp add: Let_def)
  qed
qed

text \<open>A whole scan that nothing stops.\<close>

lemma scan_passes:
  assumes "\<And>n. \<not> stop n" and "0 \<le> now_ms" and "now_ms < 2 ^ 64"
  shows "scan stop (map entry_of ps) now_ms la lo True =
    (map encode_ephemeris (chunks ps) @ [encode_utc (word_of_int now_ms), encode_location la lo],
     Finished)"
  using ephemeris_writes_chunks [OF assms(1), of 0 "length ps" ps]
  by (simp add: scan_def to_bytes_u64 [OF assms(2,3)] encode_utc_def encode_location_def)

end
