(* ===== verification/Companion_Properties.thy ===== *)
theory Companion_Properties
  imports Companion Ble_Properties
begin

text \<open>
  The properties of \<^verbatim>\<open>scripts/companion.py\<close> and the device together: what a scan writes is
  what the device then knows, and what the device does with it.
\<close>

section \<open>A device that is written to\<close>

fun write_all :: "env \<Rightarrow> u8 \<Rightarrow> bytes list \<Rightarrow> ('a ble_state_scheme, int list) state" where
  "write_all e flags [] = ret []"
| "write_all e flags (req # reqs) = do {
     n \<leftarrow> chr_write_cb e req flags;
     ns \<leftarrow> write_all e flags reqs;
     ret (n # ns)
   }"

lemma write_all_append:
  "run_state (write_all e flags (xs @ ys)) s =
     (let (ns, s1) = run_state (write_all e flags xs) s;
          (ms, s2) = run_state (write_all e flags ys) s1 in (ns @ ms, s2))"
proof (induction xs arbitrary: s)
  case Nil
  show ?case by (simp add: Let_def split: prod.splits)
next
  case (Cons x xs)
  then show ?case by (simp add: Let_def split: prod.splits)
qed

lemma write_all_batches:
  "write_all e flags (map encode_ephemeris pss) = write_batches e flags pss"
  by (induction pss) simp_all

lemma length_encode_ephemeris: "length (encode_ephemeris ps) = 6 + 6 * length ps"
  by (simp add: encode_ephemeris_def)

lemma length_encode_others:
  "length (encode_utc t) = 10" "length (encode_location la lo) = 18"
  by (simp_all add: encode_utc_def encode_location_def)

text \<open>The writes of a scan, in the build that keeps a table of passes.\<close>

lemma scan_written:
  fixes s :: "'a ble_state_scheme" and t la lo :: u64
  assumes "queue_ok e s" and "flags AND WRITE_FLAG_PREPARE e = 0"
    and "\<forall>c \<in> set pss. length c \<le> 20"
  defines "s1 \<equiv> exec (add_batches (sat_pass_add e) pss) s"
    and "reqs \<equiv> map encode_ephemeris pss @ [encode_utc t, encode_location la lo]"
  defines "h \<equiv> calls s1 @ [Hubble_time_set t, Uptime_get]"
  shows "run_state (write_all e flags reqs) s =
    (map (int \<circ> length) reqs, s1\<lparr>calls := h, g_utc_time := t - word_of_int (o_uptime e h)\<rparr>)"
proof -
  have np: "\<not> cfg_pass_prediction e" using assms(1) by (simp add: queue_ok_def)
  have "\<forall>c \<in> set pss. length c < 2 ^ 32" using assms(3) by (auto dest: bspec)
  note b = write_batches_eq [OF assms(2) np this, of s, folded s1_def]
  show ?thesis
    using chr_write_utc [OF assms(2), of t s1] np
    by (simp add: chr_write_location [OF assms(2)] reqs_def write_all_append write_all_batches b h_def length_encode_ephemeris
        length_encode_others comp_def)
qed

text \<open>C14: A scan of the companion provisions the device: for any passes that fit the entry format,
  in any number, the scan writes them in batches of at most twenty, then the time, then the
  location, and ends normally; the device reports every request as written in full, its
  pending queue has grown by the passes in order as far as the table has room, and its time
  is the companion's less the uptime.\<close>

theorem companion_scan_arrives:
  fixes s :: "'a ble_state_scheme" and ps :: "sat_pass list"
  assumes "queue_ok e s" and "flags AND WRITE_FLAG_PREPARE e = 0"
    and "\<And>n. \<not> stop n" and "0 \<le> now_ms" and "now_ms < 2 ^ 64"
  shows "\<exists>reqs h. scan stop (map entry_of ps) now_ms la lo True = (reqs, Finished) \<and>
    length reqs = (length ps + 19) div 20 + 2 \<and>
    result (write_all e flags reqs) s = map (int \<circ> length) reqs \<and>
    pending (exec (write_all e flags reqs) s) =
      pending s @ take (300 - unat (g_sat_passes_count s)) ps \<and>
    calls (exec (write_all e flags reqs) s) = h \<and>
    Hubble_time_set (word_of_int now_ms) \<in> set h \<and>
    g_utc_time (exec (write_all e flags reqs) s) = word_of_int (now_ms - o_uptime e h)"
proof -
  let ?t = "word_of_int now_ms :: u64"
  let ?reqs = "map encode_ephemeris (chunks ps) @ [encode_utc ?t, encode_location la lo]"
  let ?s1 = "exec (add_batches (sat_pass_add e) (chunks ps)) s"
  let ?h = "calls ?s1 @ [Hubble_time_set ?t, Uptime_get]"
  have "\<forall>c \<in> set (chunks ps). length c \<le> 20" using set_chunks by blast
  note w = scan_written [OF assms(1,2) this, of ?t la lo]
  have q: "pending ?s1 = pending s @ take (300 - unat (g_sat_passes_count s)) ps"
    using pass_table.add_batches_queue [OF assms(1), of "chunks ps"]
    by (simp add: queue_room_def HUBBLE_NUMBER_OF_TIMESTAMPS_def)
  have "pending (?s1\<lparr>calls := ?h, g_utc_time := u\<rparr>) = pending ?s1" for u
    by (simp add: pending_def)
  with q w scan_passes [where ps = ps and la = la and lo = lo, OF assms(3-5)] show ?thesis
    by (intro exI [of _ ?reqs] exI [of _ ?h]) (simp add: length_chunks of_int_diff)
qed

theorem companion_scan_arrives_witness:
  "\<exists>reqs. scan (\<lambda>_. False) (map entry_of [pass_at 4000 10, pass_at 5000 20]) 1000 3 4 True = (reqs, Finished) \<and>
     length reqs = 3 \<and> pending (exec (write_all sample_env 0 reqs) sample_state) =
       [pass_at 900 60, pass_at 2000 60, pass_at 3000 90, pass_at 4000 10, pass_at 5000 20]"
  using companion_scan_arrives [OF queue_ok_sample, of 0 "\<lambda>_. False" 1000
      "[pass_at 4000 10, pass_at 5000 20]" 3 4]
  by (auto simp: pending_sample) (simp add: sample_state_def)

section \<open>The passes of a scan\<close>

definition generated_pass :: "int \<Rightarrow> nat \<Rightarrow> sat_pass" where
  "generated_pass now_s k = \<lparr>sp_timestamp = word_of_int (now_s + 20 + 100 * int k), sp_duration = 60\<rparr>"

lemma generated_timestamp:
  assumes "0 \<le> now_s" and "now_s + 220 < 2 ^ 32" and "k < 3"
  shows "uint (sp_timestamp (generated_pass now_s k)) = now_s + 20 + 100 * int k"
proof -
  have "uint (word_of_int (now_s + 20 + 100 * int k) :: u32) =
      (now_s + 20 + 100 * int k) mod 2 ^ 32"
    by (simp only: uint_word_of_int) simp
  with assms show ?thesis by (simp add: generated_pass_def del: of_int_add)
qed

lemma generated_entries:
  assumes "0 \<le> now_s" and "now_s + 220 < 2 ^ 32"
  shows "generate_utc_timestamps (now_s + 20) 100 60 3 [] =
    map entry_of (map (generated_pass now_s) [0..<3])"
  unfolding generate_eq
  by (auto simp: entry_of_def generated_timestamp [OF assms] mult.commute)
    (simp add: generated_pass_def)

text \<open>The first three of a queue of times.\<close>

lemma dropWhile_past:
  assumes "0 \<le> now_s" and "now_s + 220 < 2 ^ 32" and "unat t < 2 ^ 64 - 1"
  defines "q \<equiv> dropWhile (is_past t) (map (generated_pass now_s) [0..<3])"
  shows "if int (unat t) < now_s + 220
    then \<exists>k<3. q \<noteq> [] \<and> hd q = generated_pass now_s k \<and> int (unat t) < now_s + 20 + 100 * int k \<and>
      (0 < k \<longrightarrow> now_s + 20 + 100 * (int k - 1) \<le> int (unat t))
    else q = []"
proof -
  have past: "is_past t (generated_pass now_s k) \<longleftrightarrow> now_s + 20 + 100 * int k \<le> int (unat t)"
    if "k < 3" for k
    using is_past_iff [OF assms(3), of "generated_pass now_s k"] generated_timestamp [OF assms(1,2) that]
    by (simp add: unat_eq_nat_uint nat_le_iff del: nat_uint_eq)
  have "[0..<3] = [0, 1, 2 :: nat]" by (simp add: upt_rec)
  then have q: "q = dropWhile (is_past t) [generated_pass now_s 0, generated_pass now_s 1, generated_pass now_s 2]"
    by (simp add: q_def)
  consider (0) "int (unat t) < now_s + 20"
    | (1) "now_s + 20 \<le> int (unat t)" "int (unat t) < now_s + 120"
    | (2) "now_s + 120 \<le> int (unat t)" "int (unat t) < now_s + 220"
    | (3) "now_s + 220 \<le> int (unat t)" by linarith
  then show ?thesis
  proof cases
    case 0
    with past [of 0] q show ?thesis by (auto intro!: exI [of _ 0])
  next
    case 1
    with past [of 0] past [of 1] q show ?thesis by (auto intro!: exI [of _ 1])
  next
    case 2
    with past [of 0] past [of 1] past [of 2] q show ?thesis by (auto intro!: exI [of _ 2])
  next
    case 3
    with past [of 0] past [of 1] past [of 2] q show ?thesis by simp
  qed
qed

text \<open>C19: After a run of the companion on a device without pending passes, the next schedule does
  what the companion means: as long as the SDK's time is not past the last of the three
  generated passes, it arms the timer for the first one that has not begun, at its second,
  and otherwise it fails.\<close>

theorem companion_pass_armed:
  fixes s :: "'a ble_state_scheme" and la lo :: u64
  assumes "queue_ok e s" and "flags AND WRITE_FLAG_PREPARE e = 0"
    and "pending s = []" and "unat (g_sat_passes_count s) \<le> 297"
    and "0 \<le> now_s" and "now_s + 220 < 2 ^ 32" and "0 \<le> now_ms" and "now_ms < 2 ^ 64"
  defines "reqs \<equiv> fst (companion_main (\<lambda>_. False) now_s now_ms la lo True)"
  defines "s' \<equiv> exec (write_all e flags reqs) s"
  defines "now \<equiv> unat (o_time_get e (calls s' @ [Hubble_time_get])) div 1000"
  shows "if int now < now_s + 220
    then \<exists>k<3. \<exists>T>0. run_state (sat_schedule_next_transmission e fuel) s' =
        (Some 0, exec (sat_schedule_next_transmission e fuel) s') \<and>
      calls (exec (sat_schedule_next_transmission e fuel) s') =
        calls s' @ [Hubble_time_get, Timer_start Sat_timer T 0] \<and>
      int now + int T = now_s + 20 + 100 * int k \<and>
      (0 < k \<longrightarrow> now_s + 20 + 100 * (int k - 1) \<le> int now)
    else result (sat_schedule_next_transmission e fuel) s' = Some (- 1)"
proof -
  let ?ps = "map (generated_pass now_s) [0..<3]" and ?m = "sat_schedule_next_transmission e fuel"
  let ?pss = "chunks ?ps"
  have reqs: "reqs = map encode_ephemeris ?pss @ [encode_utc (word_of_int now_ms), encode_location la lo]"
    using scan_passes [where stop = "\<lambda>_. False" and ps = ?ps and la = la and lo = lo, OF _ assms(7,8)]
    by (simp add: reqs_def companion_main_def generated_entries [OF assms(5,6)])
  have "\<forall>c \<in> set ?pss. length c \<le> 20" using set_chunks by blast
  note w = scan_written [OF assms(1,2) this, of "word_of_int now_ms" la lo, folded reqs]
  note q = pass_table.add_batches_queue [OF assms(1), of ?pss]
  have s': "pending s' = ?ps" "queue_ok e s'"
    using q w assms(3,4)
    by (simp_all add: s'_def pending_def queue_ok_def table_inv_def queue_room_def
        HUBBLE_NUMBER_OF_TIMESTAMPS_def)
  have now: "unat (schedule_now e s') = now"
    by (simp add: schedule_now_def MSEC_PER_SEC_def unat_div now_def)
  then have small: "unat (schedule_now e s') < 2 ^ 64 - 1"
    using unat_bound [of "o_time_get e (calls s' @ [Hubble_time_get])"] by (simp add: now_def)
  note drop = dropWhile_past [OF assms(5,6) small]
  note sq = pass_table.schedule_queue [OF s'(2), of fuel] pass_table.schedule_result [OF s'(2), of fuel]
  show ?thesis
  proof (cases "int now < now_s + 220")
    case False
    with drop sq s'(1) now show ?thesis by simp
  next
    case True
    then obtain k where k: "k < 3" "pending (exec ?m s') \<noteq> []" "hd (pending (exec ?m s')) = generated_pass now_s k"
        "int now < now_s + 20 + 100 * int k" "0 < k \<longrightarrow> now_s + 20 + 100 * (int k - 1) \<le> int now"
      using drop sq(1) s'(1) now by auto
    then have r: "result ?m s' = Some 0" using sq(2) by simp
    let ?T = "unat (sp_timestamp (generated_pass now_s k)) - now"
    have T: "int now + int ?T = now_s + 20 + 100 * int k" "0 < ?T"
      using k(4) generated_timestamp [OF assms(5,6) k(1)]
      by (simp_all add: unat_eq_nat_uint of_nat_diff nat_less_iff del: nat_uint_eq)
    from sat_schedule_table_timer(1) [OF s'(2) r] have
      "calls (exec ?m s') = calls s' @ [Hubble_time_get, Timer_start Sat_timer ?T 0]"
      by (simp add: k(3) now)
    then have "run_state ?m s' = (Some 0, exec ?m s') \<and>
        calls (exec ?m s') = calls s' @ [Hubble_time_get, Timer_start Sat_timer ?T 0] \<and>
        int now + int ?T = now_s + 20 + 100 * int k \<and>
        (0 < k \<longrightarrow> now_s + 20 + 100 * (int k - 1) \<le> int now)"
      using r T(1) k(5) by (simp add: prod_eq_iff)
    with True T(2) k(1) show ?thesis by (simp only: if_True) blast
  qed
qed

theorem companion_pass_armed_witness:
  "let s' = exec (write_all sample_env 0 (fst (companion_main (\<lambda>_. False) 1000 1000000 3 4 True)))
      (sample_state\<lparr>g_sat_passes_idx := 0, g_sat_passes_count := 0\<rparr>) in
   calls (exec (sat_schedule_next_transmission sample_env 1) s') =
     calls s' @ [Hubble_time_get, Timer_start Sat_timer 20 0]"
proof -
  let ?s = "sample_state\<lparr>g_sat_passes_idx := 0, g_sat_passes_count := 0\<rparr>"
  have "queue_ok sample_env ?s" "pending ?s = []"
    using queue_ok_sample by (simp_all add: queue_ok_def table_inv_def pending_def)
  moreover have "unat (o_time_get sample_env h) div 1000 = 1000" for h by simp
  ultimately show ?thesis
    using companion_pass_armed [of sample_env ?s 0 1000 1000000 3 4 1] by (auto simp: Let_def)
qed

end
