(* ===== verification/Scan_Script.thy ===== *)
theory Scan_Script
  imports Main
begin

text \<open>
  \<^verbatim>\<open>scripts/scan.py\<close>: the script on a computer that prints the packets of a device, and gives
  those it can decrypt to the backend. The packets a scan finds, the library's \<^verbatim>\<open>b64decode\<close>
  and \<^verbatim>\<open>decrypt\<close> and the environment are arguments; what the script does is the list of its
  rows and of the packets it ingests, and how it ends.
\<close>

section \<open>Operations\<close>

datatype 'p scan_event = Row 'p | Ingest 'p

datatype scan_outcome = Scan_ended | Missing_variable string | Key_error

text \<open>A variable that is not set, or empty.\<close>

definition get_env_or_fail :: "(string \<Rightarrow> string option) \<Rightarrow> string \<Rightarrow> scan_outcome + string" where
  "get_env_or_fail environ name = (case environ name of
     None \<Rightarrow> Inl (Missing_variable name)
   | Some val \<Rightarrow> if val = [] then Inl (Missing_variable name) else Inr val)"

text \<open>The \<^verbatim>\<open>while\<close> loop on what \<^verbatim>\<open>scan_single\<close> returns, \<open>None\<close> for nothing. An empty key is none.\<close>

fun scan_packets :: "(string \<Rightarrow> 'k option) \<Rightarrow> ('k \<Rightarrow> 'p \<Rightarrow> 'p option) \<Rightarrow> string option \<Rightarrow> bool \<Rightarrow>
    'p option list \<Rightarrow> 'p scan_event list \<times> scan_outcome option" where
  "scan_packets b64decode decrypt key ingest [] = ([], None)"
| "scan_packets b64decode decrypt key ingest (None # pkts) = ([], Some Scan_ended)"
| "scan_packets b64decode decrypt key ingest (Some pkt # pkts) =
     (let (evs, r) = scan_packets b64decode decrypt key ingest pkts in
      case key of
        Some (c # cs) \<Rightarrow>
          (case b64decode (c # cs) of
             None \<Rightarrow> ([], Some Key_error)
           | Some decoded_key \<Rightarrow>
               (case decrypt decoded_key pkt of
                  None \<Rightarrow> (evs, r)
                | Some decrypted_pkt \<Rightarrow>
                    (Row decrypted_pkt # (if ingest then [Ingest pkt] else []) @ evs, r)))
      | _ \<Rightarrow> (Row pkt # evs, r))"

definition scan_script :: "(string \<Rightarrow> string option) \<Rightarrow> (string \<Rightarrow> 'k option) \<Rightarrow>
    ('k \<Rightarrow> 'p \<Rightarrow> 'p option) \<Rightarrow> string option \<Rightarrow> bool \<Rightarrow> 'p option list \<Rightarrow>
    'p scan_event list \<times> scan_outcome option" where
  "scan_script environ b64decode decrypt key ingest pkts =
     (if ingest then
        (case get_env_or_fail environ ''HUBBLE_ORG_ID'' of
           Inl err \<Rightarrow> ([], Some err)
         | Inr org_id \<Rightarrow>
             (case get_env_or_fail environ ''HUBBLE_API_TOKEN'' of
                Inl err \<Rightarrow> ([], Some err)
              | Inr api_token \<Rightarrow> scan_packets b64decode decrypt key ingest pkts))
      else scan_packets b64decode decrypt key ingest pkts)"

section \<open>What is ingested\<close>


text \<open>With a key the rows are the packets that decrypt, and exactly their originals are ingested,
  up to the first scan that finds nothing.\<close>

lemma scan_packets_key:
  assumes "b64decode (c # cs) = Some k" and "evs = fst (scan_packets b64decode decrypt (Some (c # cs)) ingest pkts)"
  defines "found \<equiv> map the (takeWhile (\<lambda>p. p \<noteq> None) pkts)"
  shows "[p. Row p \<leftarrow> evs] = List.map_filter (decrypt k) found \<and>
    [p. Ingest p \<leftarrow> evs] = (if ingest then filter (\<lambda>p. decrypt k p \<noteq> None) found else [])"
  unfolding assms(2) found_def using assms(1)
  by (induction b64decode decrypt "Some (c # cs)" ingest pkts rule: scan_packets.induct)
    (auto simp: List.map_filter_simps split: prod.splits option.splits)

text \<open>Without a key every packet is a row and nothing is ever ingested, whatever the option
  says.\<close>

lemma scan_packets_no_key:
  assumes "key = None \<or> key = Some []"
  shows "fst (scan_packets b64decode decrypt key ingest pkts) =
    map (Row \<circ> the) (takeWhile (\<lambda>p. p \<noteq> None) pkts)"
  using assms
  by (induction b64decode decrypt key ingest pkts rule: scan_packets.induct)
    (auto split: prod.splits)

end
