(* ===== verification/Spec2Isabelle.thy ===== *)
theory Spec2Isabelle
  imports Sat_Properties App_Properties Ble_Properties Shell_Properties Hci_Properties
    Link_Properties Thread_Properties Pass_Properties Payload_Properties Companion_Properties
    Scan_Script
begin

text \<open>
  A verification library for the Thingy:53 reference firmware of Hubble Network, under
  \<^verbatim>\<open>src/app\<close>: the image of the application core (\<^verbatim>\<open>src/app/src\<close>) and that of the network
  core (\<^verbatim>\<open>src/app/cpunet/src\<close>), with the messages they share
  (\<^verbatim>\<open>src/app/common/sat_ipc.h\<close>), and the scripts that provision a device over
  Bluetooth and listen to it, \<^verbatim>\<open>src/scripts/companion.py\<close> and \<^verbatim>\<open>src/scripts/scan.py\<close>.

  \<^bold>\<open>The program.\<close> The device is a Bluetooth beacon most of the time. A companion connects,
  writes the time and either a table of satellite passes or its location, and disconnects.
  \<^verbatim>\<open>main.c\<close> then repeats one cycle: it schedules the next pass and arms a timer
  (\<^verbatim>\<open>sat_board.c\<close>), enables Bluetooth (\<^verbatim>\<open>ble.c\<close>), waits for the timer, disables Bluetooth,
  takes the radio mutex, boots the network core as a satellite transmitter, transmits a
  sensor reading for the length of the pass, stops the core and restores Bluetooth. A mark in
  shared memory tells the network core, when it boots, which of its two images to be. The
  shell (\<^verbatim>\<open>shell.c\<close>), the button (\<^verbatim>\<open>button.c\<close>), the timers, the Bluetooth callbacks and the
  messages of the other core all run between the steps of main and share its variables.

  \<^bold>\<open>The shape of the model.\<close> A C function is a value of the state monad over a record of the
  static variables, with the name the source gives it (a prefix is dropped where HOL does
  not allow it, and a suffix is added where two files use one name); variables are the
  fields \<^verbatim>\<open>g_...\<close> and \<^verbatim>\<open>fs_...\<close>. Machine integers are words of their width. What the images
  call and do not define, the Zephyr kernel and drivers and the Hubble SDK, is a parameter:
  every such call is appended to a log, and its result is an arbitrary function of the log
  (record \<open>env\<close>, and \<open>net_env\<close> for the network core). So a property holds for every
  behaviour of the platform, except for what it assumes of it by name: \<open>headers_ok\<close> (the
  payload buffer of the SDK holds 13 bytes, the sensor channels differ), \<open>clock_ok\<close> (uptime
  does not go back, sleeping lasts as long as asked), \<open>sdk_passes_ok\<close> (a predicted pass
  ends after the time asked about and has bounded length), \<open>nvs_ok\<close> (the flash returns
  what it reported written), \<open>buffers_suffice\<close>. An access outside an object sets the
  flag \<open>fault\<close>. Loops that the source does not bound take fuel, \<open>None\<close> is a loop that has
  not ended, and the properties say how much fuel gives a result.

  \<^bold>\<open>The theories\<close>, in the order they build on each other:
  \<^item> \<open>C_Prelude\<close>: C integers, error numbers, little-endian buffers, block copies, the state
    monad with its weakest preconditions and the invariants \<open>keeps\<close>. \<open>C_Library\<close>:
    \<^verbatim>\<open>strtol\<close> and \<^verbatim>\<open>gmtime_r\<close> of the C library, with their inverses.
  \<^item> \<open>Sat_Ipc\<close>: \<^verbatim>\<open>sat_ipc.h\<close>. \<open>Platform\<close>: the external calls of the application core, the
    call log, and the calculi \<open>emits\<close>, \<open>logs\<close>, \<open>log_free\<close> for what an operation calls.
  \<^item> \<open>Peripherals\<close>: \<^verbatim>\<open>led.c\<close>, \<^verbatim>\<open>sensor.c\<close>. \<open>App_Ipc\<close>: \<^verbatim>\<open>ipc_send\<close> and the endpoint callbacks of
    \<^verbatim>\<open>main.c\<close>. \<open>Sat_Board\<close>, \<open>Sat_Schedule\<close>, \<open>Sat_Transmit\<close>: \<^verbatim>\<open>sat_board.c\<close>, in the order
    state, setters and payload; pass table and scheduling; transmission. \<open>Pass_Queue\<close>: the
    queue the pass table implements, as the locales \<open>pass_queue\<close> and \<open>pass_schedule\<close>,
    interpreted on \<^verbatim>\<open>sat_pass_add\<close> and \<^verbatim>\<open>sat_schedule_next_transmission\<close>.
  \<^item> \<open>Nvs\<close>: \<^verbatim>\<open>nvs.c\<close>, with the locale \<open>key_store\<close>. \<open>App_Key\<close>: the device key of \<^verbatim>\<open>main.c\<close>.
    \<open>Ble\<close>, \<open>Ble_Gatt\<close>: \<^verbatim>\<open>ble.c\<close>, with the locale \<open>radio_section\<close> of code that runs under the
    radio mutex, and the write characteristic with the companion's encoders. \<open>Shell\<close>:
    \<^verbatim>\<open>shell.c\<close>. \<open>Button\<close>: \<^verbatim>\<open>button.c\<close>.
  \<^item> \<open>App_Main\<close>: \<^verbatim>\<open>main\<close>, cut into the segments between its blocking calls (\<open>main_step\<close>, with
    the program points \<open>main_pc\<close>). \<open>App_Inv\<close>: the invariant of the variables and its
    preservation by every operation. \<open>App_Calls\<close>: which calls each operation can make.
    \<open>App_System\<close>: the transition system of the application core, \<open>app_step\<close> and
    \<open>app_reach\<close>: a segment of main that can proceed, or a whole handler. \<open>App_Invariants\<close>,
    \<open>App_Run\<close>, \<open>App_Field\<close>: its invariants, executable runs, and runs of whole cycles.
  \<^item> \<open>Threads\<close>: programs cut into atomic actions, the step relation of a system of threads that
    preempt each other, the mutex with its owner, and the locale \<open>disciplined_system\<close> of
    systems whose threads keep the lock discipline. \<open>Radio_Threads\<close>: the segments of main and
    the handlers that use the radio, cut at every external call; alone, each is the
    operation of the theories above; the locale is interpreted on them. \<open>Core_Threads\<close>: the
    simulation of \<open>app_step\<close> by the threads.
  \<^item> \<open>Rely_Guarantee\<close>: two such programs that share variables without a lock, as the locale
    \<open>rely_guarantee\<close>. \<open>Pass_Threads\<close>: \<^verbatim>\<open>sat_pass_add\<close> and
    \<^verbatim>\<open>sat_schedule_next_transmission\<close> cut at every access to the pass table; \<open>Pass_Sharing\<close>,
    \<open>Pass_Race\<close>, \<open>Pass_Others\<close>: that the Bluetooth thread, main and every other handler keep
    to what the others rely on. \<open>Payload_Threads\<close>, \<open>Payload_Sharing\<close>: the same for the payload
    that \<^verbatim>\<open>sat_transmit\<close> assembles and the shell sets. The locale is interpreted on both.
  \<^item> \<open>Companion\<close>, \<open>Scan_Script\<close>: the scripts, as the list of the requests one writes, and of the
    rows and ingested packets of the other.
  \<^item> \<open>Net_Platform\<close>: the external calls of the network core. \<open>Net_Main\<close>: its \<^verbatim>\<open>main\<close> up to the
    loops. \<open>Net_Hci\<close>, \<open>Net_Hci_System\<close>: the Bluetooth image of \<^verbatim>\<open>cpunet/src/main.c\<close> and its
    transition system. \<open>Net_Sat\<close>: the satellite image with \<^verbatim>\<open>cpunet/src/sat.c\<close>. \<open>Sat_Link\<close>:
    both cores exchanging commands and acknowledgements, interleaved.
  \<^item> \<open>Sample\<close>, \<open>Net_Sample\<close>: concrete platforms and states for the witnesses.
    \<open>Sat_Properties\<close>, \<open>App_Properties\<close>, \<open>Ble_Properties\<close>, \<open>Shell_Properties\<close>,
    \<open>Hci_Properties\<close>, \<open>Link_Properties\<close>, \<open>Thread_Properties\<close>, \<open>Pass_Properties\<close>,
    \<open>Payload_Properties\<close>, \<open>Companion_Properties\<close>: the properties.

  \<^bold>\<open>What the properties show.\<close> The application core as a whole: the radio mutex is held
  exactly in the satellite phase, and under preemption every call that drives a radio is made
  by its owner, and every handler that owns it can release it; the mark follows the phase but
  for one window, packets are sent only in that phase, memory is safe under two conditions on what reaches the device,
  provisioning and every satellite phase complete. Both cores: the network core boots the
  image its caller means (the last property of this theory). The pass table refines a queue, with the
  armed pass the earliest and the timer less than a second off; prediction and transmission
  terminate and send as often as specified. Passes that are added while main schedules come
  in order, as if the two took turns. The writes of the companion, the key, the custom text and the sensor reading survive their encodings. The two cores run in lockstep as long
  as no wait times out and none did before; the network core answers every command as long
  as fewer than eight waits of a window timed out; its Bluetooth image forwards packets in
  order, loses no buffer and always finishes sending when the host accepts.

  \<^bold>\<open>What they show to fail.\<close> A failed send leaves the transmitter marked busy; the pass table
  is never reclaimed; with no pass left nothing wakes main again; the mutex is released
  before the mark is restored; a failed start leaves the network core on; a short write is
  read past its end; a timed-out command leaves a stale acknowledgement that answers the next
  one; the beacon's work item runs without the mutex and restarts the beacon after it was
  disabled; Bluetooth enabled between disabling it and taking the mutex stays on in the
  satellite phase; a payload set while main assembles one gives a text under the tag of a
  sensor; eight timed-out commands can deadlock the network core on its buffer pool; radio errors are
  acknowledged like successes; fatal errors of the Bluetooth image are never reported.

  \<^bold>\<open>Granularity and bounds.\<close> A segment of main between blocking calls and a handler are each
  one step of \<open>app_step\<close>. In \<open>Core_Threads\<close> main and the handlers that use the radio are cut
  at every external call, any number of handlers run at once and preempt main and each
  other there, which includes every schedule of the work queue and of the Bluetooth and
  shell threads; the handlers that neither use the radio nor wait are one action. In
  \<open>Pass_Properties\<close> and \<open>Payload_Properties\<close> the two threads that share the variables are cut at
  every access to them (a \<^verbatim>\<open>memcpy\<close> is one), with whole handlers in between. Every run
  of \<open>app_step\<close> is one of these, so what is shown reachable there is reachable here. In
  \<open>Sat_Link\<close> the steps are cut at every point where the network core can wait, and a run goes
  through many windows, with the core booted for each. The channel
  between the cores keeps the order of messages and loses a message only where sending it
  fails. Fuel: the transmission needs one round per retransmission period of the window,
  the prediction loop one per millisecond of the longest pass, a send to the host one per
  refused attempt.

  \<^bold>\<open>Not modelled.\<close> Log output; the Kconfig and device-tree files, which are the switches and
  constants of \<open>env\<close>; the definitions of the GATT service and the connection callbacks
  table, which are data of the Bluetooth stack; \<^verbatim>\<open>sat_params.c\<close>, which the build generates;
  the Bluetooth, cloud and argument libraries under the scripts, and their signal handler; the
  thread stacks and priorities. Declarations of functions in headers have no definition of
  their own.
\<close>

section \<open>Booting the network core\<close>

lemma boots_by_mark:
  "result (net_main_start ne mark) w = Hci_mode \<longleftrightarrow> mark \<noteq> 0"
  using net_main_start_run [of ne mark w] by auto

lemma list_all_notin: "list_all A cs \<Longrightarrow> \<not> A c \<Longrightarrow> c \<notin> set cs"
  by (auto simp: list_all_iff)

lemma mark_after_none: "(\<And>w. Mark_write w \<notin> set cs) \<Longrightarrow> mark_after v cs = v"
  using mark_after_const [of v cs v] by (auto simp: list_all_iff)

text \<open>Where in the calls of a segment the mark is written, when it boots the core.\<close>

lemma start_sat_writes_first:
  assumes "run_state (main_step e fuel Start_sat) s = (Some pc', s')"
    and "calls s' = calls s @ cs1 @ Cpunet_enable b # cs2"
  shows "mark_after v (calls s @ cs1) = 0"
proof -
  have "\<exists>cs. calls s' = calls s @ Mark_write 0 # cs \<and> (\<forall>w. Mark_write w \<notin> set cs)"
    using assms(1)
    by (auto simp: sat_endpoint_open_def cpunet_stack_mark_def split: if_splits)
  then obtain cs where cs: "cs1 @ Cpunet_enable b # cs2 = Mark_write 0 # cs"
      "\<forall>w. Mark_write w \<notin> set cs"
    using assms(2) by auto
  then obtain ds where "cs1 = Mark_write 0 # ds" "cs = ds @ Cpunet_enable b # cs2"
    by (cases cs1) auto
  with cs(2) show ?thesis by (simp add: mark_after_none)
qed

lemma boot_writes_before:
  assumes "run_state (main_boot e) s = (pc, s')" and "calls s' = calls s @ cs1 @ Bt_enable # cs2"
  shows "mark_after v (calls s @ cs1) = 1"
proof -
  let ?s1 = "exec (main_load_key e) s"
  let ?s2 = "?s1\<lparr>calls := calls ?s1 @ [Mark_write 1]\<rparr>"
  obtain ds where ds: "calls ?s1 = calls s @ ds" "list_all quiet ds"
    using frames_load_key by (rule framesE)
  obtain es where es: "calls (exec (main_bt_start e) ?s2) = calls ?s2 @ es"
      "list_all (\<lambda>c. quiet c \<or> c \<in> {Bt_enable, Bt_disable}) es"
    using frames_bt_start by (rule framesE)
  have "s' = exec (main_bt_start e) ?s2"
    using assms(1) by (simp add: main_boot_def cpunet_stack_mark_def split: prod.splits)
  with ds es assms(2) have eq: "cs1 @ Bt_enable # cs2 = (ds @ [Mark_write 1]) @ es" by simp
  have no: "Bt_enable \<notin> set (ds @ [Mark_write 1])" using ds(2) by (auto simp: list_all_iff)
  obtain us where us: "cs1 = (ds @ [Mark_write 1]) @ us" "us @ Bt_enable # cs2 = es"
  proof -
    from eq consider us where "cs1 = (ds @ [Mark_write 1]) @ us" "us @ Bt_enable # cs2 = es"
      | us where "cs1 @ us = ds @ [Mark_write 1]" "Bt_enable # cs2 = us @ es"
      unfolding append_eq_append_conv2 by metis
    then show thesis
    proof cases
      case (2 us)
      have "us = []"
      proof (cases us)
        case (Cons c' us')
        with 2 have "Bt_enable \<in> set (ds @ [Mark_write 1])" by (metis Un_iff list.set_intros(1) set_append list.inject append_Cons)
        with no show ?thesis by blast
      qed
      with 2 show thesis by (intro that [of "[]"]) auto
    qed (rule that)
  qed
  have "list_all (\<lambda>c. quiet c \<or> c \<in> {Bt_enable, Bt_disable}) us" using es(2) us(2) by auto
  then have "Mark_write w \<notin> set us" for w by (rule list_all_notin) simp
  then show ?thesis using us(1) by (simp add: mark_after_none)
qed

lemma main_boots_core:
  assumes "run_state (main_step e fuel pc) s = (Some pc', s')"
    and "calls s' = calls s @ cs1 @ c # cs2" and "mark_inv v pc s"
  shows "c = Cpunet_enable True \<Longrightarrow> mark_after v (calls s @ cs1) = 0"
    and "c = Bt_enable \<Longrightarrow> mark_after v (calls s @ cs1) = 1"
proof -
  obtain ds where "calls s' = calls s @ ds" "list_all (main_calls pc) ds"
    using assms(1) main_step_calls by blast
  with assms(2) have all: "main_calls pc c" "list_all (main_calls pc) cs1" by auto
  show "mark_after v (calls s @ cs1) = 0" if "c = Cpunet_enable True"
  proof -
    have "pc = Start_sat" using all(1) that by (cases pc) auto
    with assms(1,2) that show ?thesis using start_sat_writes_first by blast
  qed
  show "mark_after v (calls s @ cs1) = 1" if c: "c = Bt_enable"
  proof (cases "pc = Boot")
    case True
    with assms(1) obtain r where "run_state (main_boot e) s = (r, s')"
      by (auto split: prod.splits)
    with assms(2) c show ?thesis using boot_writes_before by blast
  next
    case False
    then have pc: "pc = Enable_ble" using all(1) c by (cases pc) auto
    with all(2) have "Mark_write w \<notin> set cs1" for w by (intro list_all_notin) auto
    with assms(3) pc show ?thesis by (simp add: mark_after_none mark_inv_def marks_sat_def)
  qed
qed

lemma handler_boots_core:
  assumes "calls (exec (handler_op e h) s) = calls s @ cs1 @ c # cs2"
    and "handler_enabled h s" and "mark_inv v pc s" and "radio_inv pc s"
  shows "c \<noteq> Cpunet_enable True"
    and "c = Bt_enable \<Longrightarrow> pc \<noteq> Restore_mark \<Longrightarrow> pc \<noteq> Boot \<Longrightarrow> mark_after v (calls s @ cs1) = 1"
proof -
  obtain ds where "calls (exec (handler_op e h) s) = calls s @ ds"
      "handler_adds h s ds (g_utc_time (exec (handler_op e h) s))"
    using handler_effect [of h s e] assms(2) by blast
  with assms(1) have all: "list_all handler_calls cs1" "handler_calls c"
      "c = Bt_enable \<Longrightarrow> radio_free s" by (auto simp: handler_adds_def)
  then show "c \<noteq> Cpunet_enable True" by auto
  have "Mark_write w \<notin> set cs1" for w using all(1) by (rule list_all_notin) simp
  then have nw: "mark_after v (calls s @ cs1) = mark_after v (calls s)"
    by (simp add: mark_after_none)
  show "mark_after v (calls s @ cs1) = 1" if "c = Bt_enable" "pc \<noteq> Restore_mark" "pc \<noteq> Boot"
  proof -
    have "\<not> holds_radio pc"
      using all(3) that(1) assms(4) by (auto simp: radio_inv_def radio_free_def split: if_splits)
    then have "\<not> marks_sat pc" using that(2) by (auto simp: holds_radio_def marks_sat_def)
    with nw that(3) assms(3) show ?thesis by (simp add: mark_inv_def)
  qed
qed

text \<open>C4: The network core boots the image its caller means. In every step of every run of the
  application core, when the satellite phase switches the network core on, the mark at that
  moment makes its \<open>main\<close> the satellite image, or return an error; and when Bluetooth is
  enabled, by main, the button or the shell, the mark makes it the Bluetooth image, except
  in the window between releasing the mutex and restoring the mark, and before main has
  booted.\<close>

theorem core_boots_matching_image:
  fixes ne :: net_env and w :: net_world and v :: u32
  assumes "app_reach e fuel P (pc, s)" and "app_step e fuel P (pc, s) (pc', s')"
    and "calls s' = calls s @ cs1 @ c # cs2"
  defines "mode \<equiv> result (net_main_start ne (mark_after v (calls s @ cs1))) w"
  shows "(c = Cpunet_enable True \<longrightarrow> mode \<noteq> Hci_mode) \<and>
    (c = Bt_enable \<and> pc \<noteq> Restore_mark \<and> (pc = Boot \<longrightarrow> pc' \<noteq> Boot) \<longrightarrow> mode = Hci_mode)"
proof -
  have mode: "mode = Hci_mode \<longleftrightarrow> mark_after v (calls s @ cs1) \<noteq> 0"
    unfolding mode_def by (rule boots_by_mark)
  note inv = reach_mark [OF assms(1), of v] reach_radio [OF assms(1)]
  show ?thesis
    using assms(2)
  proof (cases rule: app_step.cases)
    case main
    with main_boots_core [OF main(2) assms(3) inv(1)] show ?thesis by (auto simp: mode)
  next
    case (handler h)
    with handler_boots_core [of e h s cs1 c cs2 v pc] assms(3) inv show ?thesis
      by (auto simp: mode)
  qed
qed

theorem core_boots_matching_image_witness:
  "\<exists>s. app_reach field_env 300001 well_formed (Wait_timer, s) \<and>
     result (net_main_start sample_net_env (mark_after 0 (calls s @
       [Bt_is_ready, Mutex_lock Radio_mutex]))) \<lparr>net_calls = []\<rparr> = Hci_mode"
proof -
  obtain s where s: "app_reach field_env 300001 well_formed (Wait_timer, s)"
    using field_reaches_timer [of 300001] by auto
  then have "radio_free s"
    using reach_radio [OF s] by (simp add: radio_inv_def radio_free_def holds_radio_def)
  then obtain s' cs where "app_step field_env 300001 well_formed (Wait_timer, s) (Wait_timer, s')"
      "calls s' = calls s @ [Bt_is_ready, Mutex_lock Radio_mutex, Bt_enable] @ cs"
    using field_button_step [of s field_env well_formed 300001 Wait_timer] by (auto simp: field_env_def)
  then have "app_step field_env 300001 well_formed (Wait_timer, s) (Wait_timer, s')"
      "calls s' = calls s @ [Bt_is_ready, Mutex_lock Radio_mutex] @ Bt_enable # cs" by simp_all
  from core_boots_matching_image [OF s this, of sample_net_env 0 "\<lparr>net_calls = []\<rparr>"] s
  show ?thesis by blast
qed

end
